theory Spec2Isabelle
  imports Complex_Main
begin

section \<open>Errors raised by the notebook and by the libraries it calls\<close>

text \<open>
  The training notebook is a straight-line script: an exception raised by Python, numpy,
  scipy or TensorFlow aborts the run. Every such exception is a value of this type, and a
  fallible operation returns \<open>error + 'a\<close> with \<open>Inl\<close> for the exception.
\<close>

datatype error = ZeroDivisionError | IndexError | ValueError | InvalidArgumentError

section \<open>Batch sampler\<close>

text \<open>
  \<^verbatim>\<open>n_batches = int((N - 1) / batch_size) + 1\<close>

  \<open>/\<close> is Python 3's true division, which raises on a zero divisor, and \<open>int\<close>
  truncates its quotient towards zero. \<open>N\<close> is a dimension of \<open>Y\<close> and \<open>batch_size\<close> the
  length of a placeholder, so both are natural numbers; \<open>N - 1\<close> is the integer \<open>-1\<close> for
  an empty matrix. The quotient is taken exactly (the double-precision quotient of the
  notebook truncates to the same integer for every \<open>N\<close> below \<open>2 ^ 53\<close>).
\<close>

definition int_truediv :: "int \<Rightarrow> int \<Rightarrow> int" where
  "int_truediv a b = (if 0 \<le> a then a div b else - ((- a) div b))"

definition n_batches :: "nat \<Rightarrow> nat \<Rightarrow> error + int" where
  "n_batches N batch_size =
     (if batch_size = 0 then Inl ZeroDivisionError
      else Inr (int_truediv (int N - 1) (int batch_size) + 1))"

text \<open>\<open>xs[a:b]\<close> for non-negative bounds: numpy clips both bounds to the length.\<close>

definition slice :: "'a list \<Rightarrow> nat \<Rightarrow> nat \<Rightarrow> 'a list" where
  "slice xs a b = drop a (take b xs)"

text \<open>
  The body of the inner loop up to the padding:
  \<^verbatim>\<open>
  ix_start = nb * batch_size
  ix_end = min((nb + 1) * batch_size, N)
  indices = rand_ix[ix_start:ix_end]
  # make sure each batch is of the specified size
  if len(indices) < batch_size:
      indices = np.r_[indices, rand_ix[:batch_size - len(indices)]]
  \<close>
\<close>

definition batch_indices :: "nat list \<Rightarrow> nat \<Rightarrow> nat \<Rightarrow> nat \<Rightarrow> nat list" where
  "batch_indices rand_ix N batch_size nb =
     (let ix_start = nb * batch_size;
          ix_end = min ((nb + 1) * batch_size) N;
          indices = slice rand_ix ix_start ix_end
      in if length indices < batch_size
         then indices @ slice rand_ix 0 (batch_size - length indices)
         else indices)"

text \<open>\<open>range(n)\<close> is empty for \<open>n \<le> 0\<close>.\<close>

definition py_range :: "int \<Rightarrow> nat list" where
  "py_range n = [0..<nat n]"

text \<open>
  The index batches of one epoch, in the order the loop \<open>for nb in range(n_batches)\<close>
  visits them. \<open>rand_ix\<close> is the value of \<open>np.random.permutation(N)\<close> for that epoch.
\<close>

definition epoch_batches :: "nat list \<Rightarrow> nat \<Rightarrow> nat \<Rightarrow> error + nat list list" where
  "epoch_batches rand_ix N batch_size =
     (case n_batches N batch_size of
        Inl e \<Rightarrow> Inl e
      | Inr n \<Rightarrow> Inr (map (batch_indices rand_ix N batch_size) (py_range n)))"

text \<open>What \<open>np.random.permutation(N)\<close> returns: the numbers below \<open>N\<close>, each once.\<close>

definition permutation_of :: "nat \<Rightarrow> nat list \<Rightarrow> bool" where
  "permutation_of N xs = (distinct xs \<and> set xs = set [0..<N])"

section \<open>The membership matrix and the batch statistics\<close>

text \<open>
  \<open>Y\<close> is a scipy CSR matrix of booleans (\<open>assert isspmatrix_csr(Y)\<close>). A CSR matrix
  keeps, for every row, the column numbers and the values of the entries it stores, in
  storage order; the three arrays \<open>indptr\<close>, \<open>indices\<close> and \<open>data\<close> are the flattened form
  of exactly this list of rows. An entry that is not stored reads as \<open>False\<close>.
\<close>

record csr_matrix =
  shape :: "nat \<times> nat"
  stored :: "(nat \<times> bool) list list"

text \<open>\<open>Y[n, m]\<close>: whether some stored entry of row \<open>n\<close> in column \<open>m\<close> is \<open>True\<close>.\<close>

definition Y_at :: "csr_matrix \<Rightarrow> nat \<Rightarrow> nat \<Rightarrow> bool" where
  "Y_at Y n m = ((m, True) \<in> set (stored Y ! n))"

text \<open>
  The canonical form, which is what the preprocessing notebook pickles
  (\<open>lil_matrix\<close>, \<open>Y[i, indices] = 1\<close>, \<open>Y.tocsr()\<close>): one row list per row of the shape,
  columns strictly increasing and inside the shape, and no stored \<open>False\<close>.
\<close>

definition canonical_row :: "nat \<Rightarrow> (nat \<times> bool) list \<Rightarrow> bool" where
  "canonical_row M row =
     (sorted_wrt (<) (map fst row) \<and> list_all (\<lambda>e. fst e < M \<and> snd e) row)"

definition canonical :: "csr_matrix \<Rightarrow> bool" where
  "canonical Y =
     (length (stored Y) = fst (shape Y) \<and> list_all (canonical_row (snd (shape Y))) (stored Y))"

text \<open>\<open>Y[indices, :]\<close>: the listed rows, in the order listed; a row number outside the
  matrix raises.\<close>

definition getrows :: "csr_matrix \<Rightarrow> nat list \<Rightarrow> error + csr_matrix" where
  "getrows Y indices =
     (if list_all (\<lambda>i. i < fst (shape Y)) indices
      then Inr \<lparr>shape = (length indices, snd (shape Y)),
                stored = map (\<lambda>i. stored Y ! i) indices\<rparr>
      else Inl IndexError)"

text \<open>\<open>Y_nb.sum(axis=1).A.reshape(-1)\<close>: scipy sums booleans as integers, so each row
  gives the number of its stored \<open>True\<close> values.\<close>

definition sum_axis1 :: "csr_matrix \<Rightarrow> nat list" where
  "sum_axis1 Y = map (\<lambda>row. length (filter snd row)) (stored Y)"

text \<open>\<open>Y_nb.tocoo()\<close>: the arrays \<open>row\<close> and \<open>col\<close> of the stored entries, row after row in
  storage order. Conversion keeps every stored entry, whatever its value.\<close>

definition tocoo :: "csr_matrix \<Rightarrow> nat list \<times> nat list" where
  "tocoo Y =
     (concat (map (\<lambda>(r, row). replicate (length row) r) (enumerate 0 (stored Y))),
      concat (map (map fst) (stored Y)))"

text \<open>The \<open>feed_dict\<close> of one training step.\<close>

record feed_dict =
  feed_pIx :: "nat list"
  feed_Mplus :: "real list"
  feed_nPos :: nat
  feed_posIx :: "(nat \<times> nat) list"

text \<open>
  \<^verbatim>\<open>
  Y_nb = Y[indices, :]
  Mplus_nb = Y_nb.sum(axis=1).A.reshape(-1)
  Y_coo = Y_nb.tocoo()
  feed_dict={pIx: indices, Mplus: Mplus_nb, nPos: Y_coo.row.shape[0],
             posIx: np.hstack([Y_coo.row.reshape(-1, 1), Y_coo.col.reshape(-1, 1)])}
  \<close>
\<close>

definition batch_feed :: "csr_matrix \<Rightarrow> nat list \<Rightarrow> error + feed_dict" where
  "batch_feed Y indices =
     (case getrows Y indices of
        Inl e \<Rightarrow> Inl e
      | Inr Y_nb \<Rightarrow>
          (let Mplus_nb = sum_axis1 Y_nb;
               Y_coo = tocoo Y_nb
           in Inr \<lparr>feed_pIx = indices,
                   feed_Mplus = map real Mplus_nb,
                   feed_nPos = length (fst Y_coo),
                   feed_posIx = zip (fst Y_coo) (snd Y_coo)\<rparr>))"

text \<open>
  The three statistics as the specification words them, read off the entries of \<open>Y\<close>:
  the positive pairs of the batch in row-major order, the number of positives of a batch
  row, and the number of positives of the batch.
\<close>

definition positive_columns :: "csr_matrix \<Rightarrow> nat \<Rightarrow> nat list" where
  "positive_columns Y n = filter (Y_at Y n) [0..<snd (shape Y)]"

definition positive_pairs :: "csr_matrix \<Rightarrow> nat list \<Rightarrow> (nat \<times> nat) list" where
  "positive_pairs Y indices =
     concat (map (\<lambda>r. map (\<lambda>m. (r, m)) (positive_columns Y (indices ! r)))
               [0..<length indices])"

definition positive_count :: "csr_matrix \<Rightarrow> nat \<Rightarrow> nat" where
  "positive_count Y n = length (positive_columns Y n)"

section \<open>Tensor values\<close>

text \<open>
  The graph computes in \<open>float32\<close>. A tensor entry is modelled as a real number or one of
  the three special values of IEEE arithmetic, with the arithmetic of IEEE on the special
  values and exact arithmetic on the real ones: rounding and overflow are not modelled.
  The parameters and the scores computed from them are plain reals; the special values
  enter through the mask \<open>-np.inf\<close> and through division only. A zero divisor is the
  positive zero (the divisors of the graph are a count and the batch size).
\<close>

datatype tf_float = NegInf | Fin real | PosInf | NaN

definition inf_of_sign :: "real \<Rightarrow> tf_float" where
  "inf_of_sign x = (if x = 0 then NaN else if 0 < x then PosInf else NegInf)"

fun fl_add :: "tf_float \<Rightarrow> tf_float \<Rightarrow> tf_float" where
  "fl_add (Fin x) (Fin y) = Fin (x + y)"
| "fl_add (Fin x) z = z"
| "fl_add z (Fin y) = z"
| "fl_add NaN z = NaN"
| "fl_add z NaN = NaN"
| "fl_add PosInf NegInf = NaN"
| "fl_add NegInf PosInf = NaN"
| "fl_add PosInf PosInf = PosInf"
| "fl_add NegInf NegInf = NegInf"

fun fl_mul :: "tf_float \<Rightarrow> tf_float \<Rightarrow> tf_float" where
  "fl_mul (Fin x) (Fin y) = Fin (x * y)"
| "fl_mul NaN z = NaN"
| "fl_mul z NaN = NaN"
| "fl_mul (Fin x) PosInf = inf_of_sign x"
| "fl_mul (Fin x) NegInf = inf_of_sign (- x)"
| "fl_mul PosInf (Fin y) = inf_of_sign y"
| "fl_mul NegInf (Fin y) = inf_of_sign (- y)"
| "fl_mul PosInf PosInf = PosInf"
| "fl_mul NegInf NegInf = PosInf"
| "fl_mul PosInf NegInf = NegInf"
| "fl_mul NegInf PosInf = NegInf"

fun fl_div :: "tf_float \<Rightarrow> tf_float \<Rightarrow> tf_float" where
  "fl_div (Fin x) (Fin y) = (if y = 0 then inf_of_sign x else Fin (x / y))"
| "fl_div NaN z = NaN"
| "fl_div z NaN = NaN"
| "fl_div PosInf (Fin y) = (if 0 \<le> y then PosInf else NegInf)"
| "fl_div NegInf (Fin y) = (if 0 \<le> y then NegInf else PosInf)"
| "fl_div (Fin x) z = Fin 0"
| "fl_div z w = NaN"

fun fl_max :: "tf_float \<Rightarrow> tf_float \<Rightarrow> tf_float" where
  "fl_max (Fin x) (Fin y) = Fin (max x y)"
| "fl_max NaN z = NaN"
| "fl_max z NaN = NaN"
| "fl_max NegInf z = z"
| "fl_max z NegInf = z"
| "fl_max PosInf z = PosInf"
| "fl_max z PosInf = PosInf"

text \<open>\<open>tf.nn.relu\<close>: the maximum of the entry and zero.\<close>

fun relu :: "tf_float \<Rightarrow> tf_float" where
  "relu (Fin x) = Fin (max x 0)"
| "relu NegInf = Fin 0"
| "relu PosInf = PosInf"
| "relu NaN = NaN"

text \<open>\<open>tf.reduce_sum\<close> and \<open>tf.reduce_max\<close> of a vector; the empty maximum is \<open>-inf\<close>.\<close>

definition reduce_sum :: "tf_float list \<Rightarrow> tf_float" where
  "reduce_sum xs = foldr fl_add xs (Fin 0)"

definition reduce_max :: "tf_float list \<Rightarrow> tf_float" where
  "reduce_max xs = foldr fl_max xs NegInf"

section \<open>The cost graph\<close>

text \<open>Errors of one operation end the evaluation of the graph.\<close>

definition err_bind :: "error + 'a \<Rightarrow> ('a \<Rightarrow> error + 'b) \<Rightarrow> error + 'b" where
  "err_bind x f = (case x of Inl e \<Rightarrow> Inl e | Inr a \<Rightarrow> f a)"

text \<open>
  \<open>tf.gather\<close> along axis 0 and \<open>tf.gather_nd\<close> with index pairs into a matrix. An index
  outside the tensor is an \<open>InvalidArgumentError\<close> (the behaviour TensorFlow documents
  for the CPU kernels).
\<close>

definition gather :: "'a list \<Rightarrow> nat list \<Rightarrow> error + 'a list" where
  "gather params indices =
     (if list_all (\<lambda>i. i < length params) indices
      then Inr (map (\<lambda>i. params ! i) indices)
      else Inl InvalidArgumentError)"

definition valid_index :: "'a list list \<Rightarrow> nat \<times> nat \<Rightarrow> bool" where
  "valid_index A ix = (fst ix < length A \<and> snd ix < length (A ! fst ix))"

definition gather_nd :: "'a list list \<Rightarrow> (nat \<times> nat) list \<Rightarrow> error + 'a list" where
  "gather_nd params indices =
     (if list_all (valid_index params) indices
      then Inr (map (\<lambda>ix. params ! fst ix ! snd ix) indices)
      else Inl InvalidArgumentError)"

text \<open>
  \<open>tf.scatter_nd(shape, indices, updates)\<close>: a tensor of zeros of the given shape to which
  every update is added at its index, so updates at a repeated index accumulate. The
  number of updates must be the number of indices.
\<close>

definition zeros :: "nat \<times> nat \<Rightarrow> tf_float list list" where
  "zeros shp = replicate (fst shp) (replicate (snd shp) (Fin 0))"

definition add_at :: "nat \<times> nat \<Rightarrow> tf_float \<Rightarrow> tf_float list list \<Rightarrow> tf_float list list" where
  "add_at ix u A = A[fst ix := (A ! fst ix)[snd ix := fl_add (A ! fst ix ! snd ix) u]]"

definition scatter_nd ::
  "nat \<times> nat \<Rightarrow> (nat \<times> nat) list \<Rightarrow> tf_float list \<Rightarrow> error + tf_float list list" where
  "scatter_nd shp indices updates =
     (if length updates \<noteq> length indices
         \<or> \<not> list_all (\<lambda>ix. fst ix < fst shp \<and> snd ix < snd shp) indices
      then Inl InvalidArgumentError
      else Inr (foldl (\<lambda>A (ix, u). add_at ix u A) (zeros shp) (zip indices updates)))"

text \<open>\<open>tf.tile([-np.inf], [nPos])\<close>\<close>

definition tile :: "'a list \<Rightarrow> nat \<Rightarrow> 'a list" where
  "tile xs n = concat (replicate n xs)"

text \<open>The mask that the scatter builds from a set of index pairs.\<close>

definition mask_matrix :: "nat \<Rightarrow> nat \<Rightarrow> (nat \<times> nat) set \<Rightarrow> tf_float list list" where
  "mask_matrix Nb M A =
     map (\<lambda>r. map (\<lambda>m. if (r, m) \<in> A then NegInf else Fin 0) [0..<M]) [0..<Nb]"

text \<open>
  The cost as a function of the score matrix \<open>T\<close> (\<open>Nb\<close> rows of \<open>M\<close> scores):
  \<^verbatim>\<open>
  pos_vec = tf.gather_nd(params=T, indices=posIx)
  Tn = T + tf.scatter_nd(shape=T.shape, indices=posIx, updates=tf.tile([-np.inf], [nPos]))
  max_negs = tf.reduce_max(Tn, axis=1)
  row_ix = posIx[:, 0]
  relu_vec = tf.nn.relu(tf.divide(1 - pos_vec + tf.gather(max_negs, row_ix),
                                  tf.gather(Mplus, row_ix)))
  cost = tf.reduce_sum(tf.multiply(relu_vec, relu_vec)) / tf.cast(T.shape[0], tf.float32)
  \<close>
  \<open>T.shape\<close> is the static shape \<open>(batch_size, M)\<close>; the rows of \<open>T\<close> are as many as the
  fed \<open>pIx\<close> has entries, which the session checks against \<open>batch_size\<close>.
\<close>

definition masked_scores ::
  "nat \<Rightarrow> real list list \<Rightarrow> (nat \<times> nat) list \<Rightarrow> nat \<Rightarrow> error + tf_float list list" where
  "masked_scores M T posIx nPos =
     err_bind (scatter_nd (length T, M) posIx (tile [NegInf] nPos))
       (\<lambda>mask. Inr (map2 (\<lambda>row mrow. map2 (\<lambda>t u. fl_add (Fin t) u) row mrow) T mask))"

definition max_negs ::
  "nat \<Rightarrow> real list list \<Rightarrow> (nat \<times> nat) list \<Rightarrow> nat \<Rightarrow> error + tf_float list" where
  "max_negs M T posIx nPos =
     err_bind (masked_scores M T posIx nPos) (\<lambda>Tn. Inr (map reduce_max Tn))"

definition cost_of_scores ::
  "nat \<Rightarrow> real list list \<Rightarrow> (nat \<times> nat) list \<Rightarrow> real list \<Rightarrow> nat \<Rightarrow> error + tf_float" where
  "cost_of_scores M T posIx Mplus nPos =
     err_bind (gather_nd T posIx) (\<lambda>pos_vec.
     err_bind (max_negs M T posIx nPos) (\<lambda>mx.
       let row_ix = map fst posIx in
     err_bind (gather mx row_ix) (\<lambda>mx_rows.
     err_bind (gather Mplus row_ix) (\<lambda>Mplus_rows.
       let relu_vec =
             map relu
               (map2 fl_div (map2 (\<lambda>p m. fl_add (Fin (1 - p)) m) pos_vec mx_rows)
                  (map Fin Mplus_rows))
       in Inr (fl_div (reduce_sum (map2 fl_mul relu_vec relu_vec))
                 (Fin (real (length T))))))))"

text \<open>
  The loss as the specification words it. \<open>T_masked\<close> is \<open>T\<close> with every positive entry
  replaced by \<open>-inf\<close>, \<open>max_neg\<close> of a row the maximum of that row of \<open>T_masked\<close>, and the
  loss the sum over the positive pairs of \<open>relu((1 - T[row, song] + max_neg[row]) /
  Mplus[row])\<close> squared, divided by the number of rows of the batch.
\<close>

definition T_masked_row :: "nat \<Rightarrow> real list list \<Rightarrow> (nat \<times> nat) list \<Rightarrow> nat \<Rightarrow> tf_float list" where
  "T_masked_row M T posIx r =
     map (\<lambda>m. if (r, m) \<in> set posIx then NegInf else Fin (T ! r ! m)) [0..<M]"

definition max_neg :: "nat \<Rightarrow> real list list \<Rightarrow> (nat \<times> nat) list \<Rightarrow> nat \<Rightarrow> tf_float" where
  "max_neg M T posIx r = reduce_max (T_masked_row M T posIx r)"

definition hinge_term ::
  "nat \<Rightarrow> real list list \<Rightarrow> (nat \<times> nat) list \<Rightarrow> real list \<Rightarrow> nat \<times> nat \<Rightarrow> tf_float" where
  "hinge_term M T posIx Mplus p =
     (let u = relu (fl_div (fl_add (Fin (1 - T ! fst p ! snd p)) (max_neg M T posIx (fst p)))
                      (Fin (Mplus ! fst p)))
      in fl_mul u u)"

definition top_push_loss ::
  "nat \<Rightarrow> real list list \<Rightarrow> (nat \<times> nat) list \<Rightarrow> real list \<Rightarrow> tf_float" where
  "top_push_loss M T posIx Mplus =
     fl_div (reduce_sum (map (hinge_term M T posIx Mplus) posIx)) (Fin (real (length T)))"

text \<open>The loss as a real number, where the graph returns one.\<close>

definition loss_value :: "error + tf_float \<Rightarrow> real" where
  "loss_value c = (case c of Inr (Fin l) \<Rightarrow> l | _ \<Rightarrow> 0)"

text \<open>The songs of a batch row that are not among its positives, and their scores.\<close>

definition negative_scores :: "nat \<Rightarrow> real list list \<Rightarrow> (nat \<times> nat) list \<Rightarrow> nat \<Rightarrow> real set" where
  "negative_scores M T posIx r = (\<lambda>m. T ! r ! m) ` {m \<in> set [0..<M]. (r, m) \<notin> set posIx}"

text \<open>The shape conditions under which the graph is evaluated: \<open>T\<close> has \<open>M\<close> columns.\<close>

definition score_matrix :: "nat \<Rightarrow> real list list \<Rightarrow> bool" where
  "score_matrix M T = list_all (\<lambda>row. length row = M) T"

definition in_range :: "nat \<Rightarrow> nat \<Rightarrow> (nat \<times> nat) list \<Rightarrow> bool" where
  "in_range Nb M posIx = list_all (\<lambda>ix. fst ix < Nb \<and> snd ix < M) posIx"

section \<open>Parameters, the training loop and the saved array\<close>

text \<open>
  The model parameters are the TensorFlow variables \<open>S\<close> (\<open>D\<close> by \<open>M\<close>), \<open>b\<close> (\<open>1\<close> by \<open>M\<close>,
  kept as its single row) and \<open>P\<close> (\<open>N\<close> by \<open>D\<close>); \<open>slots\<close> stands for the state the
  optimiser keeps beside them.
\<close>

record 'o variables =
  S_var :: "real list list"
  b_var :: "real list"
  P_var :: "real list list"
  slots :: 'o

text \<open>
  What the notebook takes from its libraries and does not define: \<open>tf.random_uniform\<close>
  under a graph seed (the second argument numbers the random operations of the graph in
  the order they are created), one step of \<open>AdamOptimizer(...).minimize(cost)\<close>, and
  \<open>np.random.permutation\<close>, which reads and advances numpy's global generator.
\<close>

record ('o, 'g) library =
  random_uniform :: "nat \<Rightarrow> nat \<Rightarrow> nat \<times> nat \<Rightarrow> real list list"
  initial_slots :: 'o
  minimize :: "'o variables \<Rightarrow> feed_dict \<Rightarrow> 'o variables"
  permutation :: "'g \<Rightarrow> nat \<Rightarrow> nat list \<times> 'g"

record config =
  feature_dim :: nat
  n_epochs :: nat
  batch_size :: nat
  RAND_SEED :: nat

text \<open>
  \<^verbatim>\<open>
  tf.set_random_seed(RAND_SEED)
  S = tf.Variable(initial_value=1e-3 * tf.random_uniform([D, M]))
  b = tf.Variable(initial_value=1e-3 * tf.random_uniform([1, M]))
  P = tf.Variable(initial_value=1e-3 * tf.random_uniform([N, D]))
  \<close>
\<close>

definition scale :: "real \<Rightarrow> real list list \<Rightarrow> real list list" where
  "scale c A = map (map (\<lambda>u. c * u)) A"

definition init_variables :: "('o, 'g) library \<Rightarrow> config \<Rightarrow> nat \<times> nat \<Rightarrow> 'o variables" where
  "init_variables lib cfg shp =
     (let N = fst shp; M = snd shp; D = feature_dim cfg
      in \<lparr>S_var = scale (1 / 1000) (random_uniform lib (RAND_SEED cfg) 0 (D, M)),
          b_var = concat (scale (1 / 1000) (random_uniform lib (RAND_SEED cfg) 1 (1, M))),
          P_var = scale (1 / 1000) (random_uniform lib (RAND_SEED cfg) 2 (N, D)),
          slots = initial_slots lib\<rparr>)"

text \<open>
  \<^verbatim>\<open>
  Pb = tf.gather(params=P, indices=pIx, axis=0)
  T = tf.matmul(Pb, S) + b
  \<close>
\<close>

definition matmul :: "nat \<Rightarrow> real list list \<Rightarrow> real list list \<Rightarrow> real list list" where
  "matmul M A C =
     map (\<lambda>row. map (\<lambda>m. sum_list (map2 (\<lambda>a crow. a * crow ! m) row C)) [0..<M]) A"

definition scores :: "nat \<Rightarrow> 'o variables \<Rightarrow> nat list \<Rightarrow> error + real list list" where
  "scores M v pIx =
     err_bind (gather (P_var v) pIx)
       (\<lambda>Pb. Inr (map (\<lambda>row. map2 (+) row (b_var v)) (matmul M Pb (S_var v))))"

definition cost :: "nat \<Rightarrow> 'o variables \<Rightarrow> feed_dict \<Rightarrow> error + tf_float" where
  "cost M v fd =
     err_bind (scores M v (feed_pIx fd))
       (\<lambda>T. cost_of_scores M T (feed_posIx fd) (feed_Mplus fd) (feed_nPos fd))"

text \<open>
  \<open>sess.run([optimiser, cost], feed_dict=...)\<close>: the placeholders \<open>pIx\<close> and \<open>Mplus\<close> have
  the fixed shape \<open>[batch_size]\<close>, and feeding a value of another shape is a
  \<open>ValueError\<close>; the run returns the cost and applies one optimiser step.
\<close>

definition sess_run ::
  "('o, 'g) library \<Rightarrow> nat \<Rightarrow> nat \<Rightarrow> 'o variables \<Rightarrow> feed_dict \<Rightarrow> error + 'o variables \<times> tf_float"
  where
  "sess_run lib Nb M v fd =
     (if length (feed_pIx fd) \<noteq> Nb \<or> length (feed_Mplus fd) \<noteq> Nb then Inl ValueError
      else err_bind (cost M v fd) (\<lambda>J. Inr (minimize lib v fd, J)))"

text \<open>
  The state of the training cell: the matrix \<open>Y\<close>, the variables of the session, numpy's
  global generator, and two histories: the feeds given to the session and the lines
  printed.
\<close>

record ('o, 'g) training =
  Y_data :: csr_matrix
  vars :: "'o variables"
  np_random :: 'g
  fed :: "feed_dict list"
  printed :: "(nat \<times> nat \<times> int \<times> tf_float) list"

text \<open>One pass of the inner loop body, for batch number \<open>nb\<close> of epoch \<open>epoch\<close>.\<close>

definition train_batch ::
  "('o, 'g) library \<Rightarrow> config \<Rightarrow> int \<Rightarrow> nat list \<Rightarrow> nat \<Rightarrow> ('o, 'g) training \<Rightarrow> nat
     \<Rightarrow> error + ('o, 'g) training" where
  "train_batch lib cfg nbs rand_ix epoch st nb =
     (let N = fst (shape (Y_data st)); M = snd (shape (Y_data st));
          indices = batch_indices rand_ix N (batch_size cfg) nb
      in err_bind (batch_feed (Y_data st) indices) (\<lambda>fd.
         err_bind (sess_run lib (batch_size cfg) M (vars st) fd) (\<lambda>(v, J).
           Inr (st\<lparr>vars := v, fed := fed st @ [fd],
                   printed := printed st @ [(epoch + 1, nb + 1, nbs, J)]\<rparr>))))"

text \<open>A \<open>for\<close> loop whose body may raise.\<close>

fun for_loop :: "('s \<Rightarrow> 'a \<Rightarrow> error + 's) \<Rightarrow> 'a list \<Rightarrow> 's \<Rightarrow> error + 's" where
  "for_loop body [] st = Inr st"
| "for_loop body (x # xs) st = err_bind (body st x) (for_loop body xs)"

text \<open>
  \<^verbatim>\<open>
  for epoch in range(n_epochs):
      rand_ix = np.random.permutation(N)
      for nb in range(n_batches):
          ...
  \<close>
\<close>

definition train_epoch ::
  "('o, 'g) library \<Rightarrow> config \<Rightarrow> int \<Rightarrow> ('o, 'g) training \<Rightarrow> nat \<Rightarrow> error + ('o, 'g) training"
  where
  "train_epoch lib cfg nbs st epoch =
     (let (rand_ix, g) = permutation lib (np_random st) (fst (shape (Y_data st)))
      in for_loop (train_batch lib cfg nbs rand_ix epoch) (py_range nbs)
           (st\<lparr>np_random := g\<rparr>))"

text \<open>
  The state after \<open>sess.run(init_op)\<close>, for a process whose numpy generator is in state
  \<open>g\<close> when the training cell starts. The notebook calls \<open>tf.set_random_seed\<close> and never
  \<open>np.random.seed\<close>, so \<open>g\<close> is whatever numpy seeded itself with.
\<close>

definition initial_training ::
  "('o, 'g) library \<Rightarrow> config \<Rightarrow> csr_matrix \<Rightarrow> 'g \<Rightarrow> ('o, 'g) training" where
  "initial_training lib cfg Y g =
     \<lparr>Y_data = Y, vars = init_variables lib cfg (shape Y), np_random = g,
      fed = [], printed = []\<rparr>"

definition train ::
  "('o, 'g) library \<Rightarrow> config \<Rightarrow> csr_matrix \<Rightarrow> 'g \<Rightarrow> error + ('o, 'g) training" where
  "train lib cfg Y g =
     err_bind (n_batches (fst (shape Y)) (batch_size cfg)) (\<lambda>nbs.
       for_loop (train_epoch lib cfg nbs) (py_range (int (n_epochs cfg)))
         (initial_training lib cfg Y g))"

text \<open>The playlist index sequences fed to the session, batch after batch, by a whole run.\<close>

definition batch_orderings ::
  "('o, 'g) library \<Rightarrow> config \<Rightarrow> csr_matrix \<Rightarrow> 'g \<Rightarrow> error + nat list list" where
  "batch_orderings lib cfg Y g =
     err_bind (train lib cfg Y g) (\<lambda>st. Inr (map feed_pIx (fed st)))"

text \<open>
  The batches that \<open>k\<close> epochs slice from the permutations which a generator yields from
  state \<open>g\<close> on.
\<close>

fun drawn_batches ::
  "('g \<Rightarrow> nat \<Rightarrow> nat list \<times> 'g) \<Rightarrow> nat \<Rightarrow> nat \<Rightarrow> int \<Rightarrow> nat \<Rightarrow> 'g \<Rightarrow> nat list list" where
  "drawn_batches perm N Nb nbs 0 g = []"
| "drawn_batches perm N Nb nbs (Suc k) g =
     map (batch_indices (fst (perm g N)) N Nb) (py_range nbs) @
     drawn_batches perm N Nb nbs k (snd (perm g N))"

text \<open>
  What \<open>tf.random_uniform\<close> promises with its default bounds: every entry is at least
  \<open>0\<close> and below \<open>1\<close>.
\<close>

definition unit_interval :: "real list list \<Rightarrow> bool" where
  "unit_interval A = list_all (list_all (\<lambda>u. 0 \<le> u \<and> u < 1)) A"

definition entries_between :: "real \<Rightarrow> real \<Rightarrow> real list list \<Rightarrow> bool" where
  "entries_between lo hi A = list_all (list_all (\<lambda>x. lo \<le> x \<and> x < hi)) A"

text \<open>
  \<^verbatim>\<open>
  w = np.r_[S.eval(), b.eval(), P.eval()]
  np.save(fparam, w, allow_pickle=False)
  \<close>
  \<open>np.r_\<close> joins two-dimensional arrays along the first axis, and raises \<open>ValueError\<close>
  unless all of them have the same number of columns. An array is its shape and its
  rows.
\<close>

type_synonym ndarray = "(nat \<times> nat) \<times> real list list"

fun np_r :: "ndarray list \<Rightarrow> error + ndarray" where
  "np_r [] = Inl ValueError"
| "np_r [a] = Inr a"
| "np_r (a # as) =
     err_bind (np_r as) (\<lambda>rest.
       if snd (fst a) = snd (fst rest)
       then Inr ((fst (fst a) + fst (fst rest), snd (fst a)), snd a @ snd rest)
       else Inl ValueError)"

definition eval_variables :: "config \<Rightarrow> nat \<times> nat \<Rightarrow> 'o variables \<Rightarrow> ndarray list" where
  "eval_variables cfg shp v =
     (let N = fst shp; M = snd shp; D = feature_dim cfg
      in [((D, M), S_var v), ((1, M), [b_var v]), ((N, D), P_var v)])"

definition save_parameters :: "config \<Rightarrow> nat \<times> nat \<Rightarrow> 'o variables \<Rightarrow> error + ndarray" where
  "save_parameters cfg shp v = np_r (eval_variables cfg shp v)"

text \<open>The whole training cell: what \<open>np.save\<close> writes, or the exception that ends the run.\<close>

definition notebook ::
  "('o, 'g) library \<Rightarrow> config \<Rightarrow> csr_matrix \<Rightarrow> 'g \<Rightarrow> error + ndarray" where
  "notebook lib cfg Y g =
     err_bind (train lib cfg Y g) (\<lambda>st. save_parameters cfg (shape Y) (vars st))"

section \<open>A small instance\<close>

text \<open>
  Three playlists over four songs: the first holds songs 0 and 2, the second is empty
  and the third holds every song. The library instance draws \<open>1 / 2\<close> everywhere, has an
  optimiser step that leaves the variables as they are, and a generator whose state is a
  counter: an even state yields the identity permutation and an odd state the reversed
  one.
\<close>

definition example_Y :: csr_matrix where
  "example_Y =
     \<lparr>shape = (3, 4),
      stored = [[(0, True), (2, True)], [], [(0, True), (1, True), (2, True), (3, True)]]\<rparr>"

definition example_library :: "(unit, nat) library" where
  "example_library =
     \<lparr>random_uniform = (\<lambda>seed k shp. replicate (fst shp) (replicate (snd shp) (1 / 2))),
      initial_slots = (),
      minimize = (\<lambda>v fd. v),
      permutation = (\<lambda>g n. (if even g then [0..<n] else rev [0..<n], Suc g))\<rparr>"

definition example_config :: config where
  "example_config = \<lparr>feature_dim = 2, n_epochs = 1, batch_size = 2, RAND_SEED = 0\<rparr>"

text \<open>The shapes of the specification's example: \<open>D = 8\<close>, \<open>M = 10\<close>, \<open>N = 5\<close>.\<close>

definition spec_config :: config where
  "spec_config = \<lparr>feature_dim = 8, n_epochs = 1, batch_size = 2, RAND_SEED = 0\<rparr>"

section \<open>Properties of the batch sampler\<close>

lemma n_batches_pos:
  assumes "0 < B" "0 < N"
  shows "n_batches N B = Inr (int (Suc ((N - 1) div B)))"
  using assms by (simp add: n_batches_def int_truediv_def zdiv_int of_nat_diff)

lemma py_range_int: "py_range (int n) = [0..<n]"
  by (simp add: py_range_def)

lemma ceiling_div_nat:
  assumes "0 < B" "0 < N"
  shows "\<lceil>real N / real B\<rceil> = int ((N - 1) div B + 1)"
proof -
  let ?q = "(N - 1) div B"
  have lo: "?q * B < N"
    using assms by (metis Suc_pred' div_times_less_eq_dividend less_Suc_eq_le One_nat_def)
  have hi: "N \<le> (?q + 1) * B"
    using assms dividend_less_div_times [of B "N - 1"] by simp
  have "real ?q * real B < real N"
    using lo by (metis of_nat_less_iff of_nat_mult)
  then have a: "real_of_int (int ?q) < real N / real B"
    using assms by (simp add: pos_less_divide_eq)
  have "real N \<le> (real ?q + 1) * real B"
    using hi by (metis of_nat_le_iff of_nat_mult of_nat_add of_nat_1)
  then have b: "real N / real B \<le> real_of_int (int ?q) + 1"
    using assms by (simp add: pos_divide_le_eq)
  have "\<lceil>real N / real B\<rceil> = int ?q + 1"
    using a b by (rule ceiling_eq)
  then show ?thesis by simp
qed

lemma batch_indices_full:
  assumes "length rand_ix = N" "(nb + 1) * B \<le> N"
  shows "batch_indices rand_ix N B nb = take B (drop (nb * B) rand_ix)"
  using assms by (simp add: batch_indices_def slice_def Let_def drop_take min_absorb1)

lemma batch_indices_last:
  assumes "length rand_ix = N" "nb * B < N" "N < (nb + 1) * B"
  shows "batch_indices rand_ix N B nb =
           drop (nb * B) rand_ix @ take (B - (N - nb * B)) rand_ix"
  using assms by (simp add: batch_indices_def slice_def Let_def min_absorb2)

lemma batch_start_less:
  assumes "0 < (N::nat)" "nb \<le> (N - 1) div B"
  shows "nb * B < N"
proof -
  from assms(2) have "nb * B \<le> ((N - 1) div B) * B" by (rule mult_le_mono1)
  also have "\<dots> \<le> N - 1" by simp
  finally show ?thesis using assms by simp
qed

lemma batch_indices_cases:
  assumes "length rand_ix = N" "0 < N" "nb \<le> (N - 1) div B"
  shows "((nb + 1) * B \<le> N \<and>
          batch_indices rand_ix N B nb = take B (drop (nb * B) rand_ix)) \<or>
         (nb * B < N \<and> N < (nb + 1) * B \<and>
          batch_indices rand_ix N B nb =
            drop (nb * B) rand_ix @ take (B - (N - nb * B)) rand_ix)"
proof (cases "(nb + 1) * B \<le> N")
  case True
  then show ?thesis using assms(1) by (simp add: batch_indices_full)
next
  case False
  moreover have "nb * B < N" using assms(2,3) by (rule batch_start_less)
  ultimately show ?thesis using assms(1) by (simp add: batch_indices_last)
qed

lemma batch_indices_length:
  assumes "length rand_ix = N" "0 < N" "B \<le> 2 * N" "nb \<le> (N - 1) div B"
  shows "length (batch_indices rand_ix N B nb) = B"
proof -
  from batch_indices_cases [OF assms(1,2,4)]
  consider (full) "(nb + 1) * B \<le> N"
      "batch_indices rand_ix N B nb = take B (drop (nb * B) rand_ix)"
    | (last) "nb * B < N" "N < (nb + 1) * B"
      "batch_indices rand_ix N B nb = drop (nb * B) rand_ix @ take (B - (N - nb * B)) rand_ix"
    by blast
  then show ?thesis
  proof cases
  case full
  then show ?thesis using assms(1) by simp
next
  case last
  have "(nb + 1) * B \<le> 2 * N"
  proof (cases nb)
    case 0
    then show ?thesis using assms(3) by simp
  next
    case (Suc k)
    then have "(nb + 1) * B \<le> 2 * (nb * B)" by simp
    then show ?thesis using last(1) by linarith
  qed
  then have "B - (N - nb * B) \<le> N" by simp
  then show ?thesis using last assms(1) by (simp add: min_absorb2)
  qed
qed

lemma batch_indices_distinct:
  assumes "length rand_ix = N" "distinct rand_ix" "0 < B" "B \<le> N" "nb \<le> (N - 1) div B"
  shows "distinct (batch_indices rand_ix N B nb)"
proof -
  have N: "0 < N" using assms by simp
  from batch_indices_cases [OF assms(1) N assms(5)]
  consider (full) "(nb + 1) * B \<le> N"
      "batch_indices rand_ix N B nb = take B (drop (nb * B) rand_ix)"
    | (last) "nb * B < N" "N < (nb + 1) * B"
      "batch_indices rand_ix N B nb = drop (nb * B) rand_ix @ take (B - (N - nb * B)) rand_ix"
    by blast
  then show ?thesis
  proof cases
    case full
    then show ?thesis using assms(2) by simp
  next
    case last
    have "B \<le> nb * B + B" by simp
    have "nb \<noteq> 0" using last assms(4) by (cases nb) auto
    then have "B \<le> nb * B" by (cases nb) simp_all
    then have le: "B - (N - nb * B) \<le> nb * B" by linarith
    have "set (take (B - (N - nb * B)) rand_ix) \<inter> set (drop (nb * B) rand_ix) = {}"
      using assms(2) le by (rule set_take_disj_set_drop_if_distinct)
    then show ?thesis using last assms(2) by (auto simp: distinct_append)
  qed
qed

lemma batch_indices_cover:
  assumes "length rand_ix = N" "0 < B" "i < N"
  shows "rand_ix ! i \<in> set (batch_indices rand_ix N B (i div B))"
    and "i div B \<le> (N - 1) div B"
proof -
  have N: "0 < N" using assms by simp
  show nb: "i div B \<le> (N - 1) div B"
    using assms by (simp add: div_le_mono)
  have lo: "(i div B) * B \<le> i" by simp
  from batch_indices_cases [OF assms(1) N nb]
  consider (full) "(i div B + 1) * B \<le> N"
      "batch_indices rand_ix N B (i div B) = take B (drop (i div B * B) rand_ix)"
    | (last) "i div B * B < N" "N < (i div B + 1) * B"
      "batch_indices rand_ix N B (i div B) =
         drop (i div B * B) rand_ix @ take (B - (N - i div B * B)) rand_ix"
    by blast
  then show "rand_ix ! i \<in> set (batch_indices rand_ix N B (i div B))"
  proof cases
    case full
    have "i mod B < B" using assms by simp
    moreover have "i div B * B + i mod B = i" by simp
    ultimately have "take B (drop (i div B * B) rand_ix) ! (i mod B) = rand_ix ! i"
      using assms full by (simp)
    moreover have "i mod B < length (take B (drop (i div B * B) rand_ix))"
      using assms full by simp
    ultimately show ?thesis using full by (metis nth_mem)
  next
    case last
    have "i div B * B + (i - i div B * B) = i"
      using lo by linarith
    then have "drop (i div B * B) rand_ix ! (i - i div B * B) = rand_ix ! i"
      using assms(1,3) by (metis nth_drop less_imp_le_nat lo le_trans)
    moreover have "i - i div B * B < N - i div B * B"
      using assms(3) lo by linarith
    then have "i - i div B * B < length (drop (i div B * B) rand_ix)"
      using assms(1) by simp
    ultimately have "rand_ix ! i \<in> set (drop (i div B * B) rand_ix)"
      by (metis nth_mem)
    then show ?thesis using last by simp
  qed
qed

lemma permutation_of_length:
  assumes "permutation_of N rand_ix"
  shows "length rand_ix = N"
proof -
  from assms have d: "distinct rand_ix" and s: "set rand_ix = {0..<N}"
    by (simp_all add: permutation_of_def)
  have "length rand_ix = card (set rand_ix)" using d by (simp add: distinct_card)
  also have "\<dots> = N" unfolding s by simp
  finally show ?thesis .
qed

lemma epoch_batches_Inr:
  assumes "epoch_batches rand_ix N B = Inr bs"
  shows "0 < B"
    and "0 < N \<Longrightarrow> bs = map (batch_indices rand_ix N B) [0..<Suc ((N - 1) div B)]"
proof -
  show B: "0 < B"
    using assms by (cases "B = 0") (simp_all add: epoch_batches_def n_batches_def)
  assume "0 < N"
  then show "bs = map (batch_indices rand_ix N B) [0..<Suc ((N - 1) div B)]"
    using assms B by (simp add: epoch_batches_def n_batches_pos py_range_int del: upt_Suc of_nat_Suc)
qed

text \<open>
  The sampler on the inputs where it does what its comment says (\<open>make sure each batch is
  of the specified size\<close>): for a non-empty \<open>Y\<close> and a batch size of at most \<open>2 * N\<close> an
  epoch has \<open>ceil(N / B)\<close> batches of exactly \<open>B\<close> indices, which together cover every
  playlist.
\<close>

lemma epoch_batches_regular:
  assumes "permutation_of N rand_ix" "0 < N" "0 < B" "B \<le> 2 * N"
  shows "\<exists>bs. epoch_batches rand_ix N B = Inr bs \<and>
           int (length bs) = \<lceil>real N / real B\<rceil> \<and>
           (\<forall>k<length bs. length (bs ! k) = B) \<and>
           \<Union> (set ` set bs) = {0..<N}"
proof -
  let ?n = "Suc ((N - 1) div B)"
  let ?bs = "map (batch_indices rand_ix N B) [0..<?n]"
  have len: "length rand_ix = N" using assms(1) by (rule permutation_of_length)
  have set: "set rand_ix = {0..<N}" using assms(1) by (simp add: permutation_of_def)
  have eq: "epoch_batches rand_ix N B = Inr ?bs"
    using assms(2,3) by (simp add: epoch_batches_def n_batches_pos py_range_int del: upt_Suc of_nat_Suc)
  have count: "int (length ?bs) = \<lceil>real N / real B\<rceil>"
    using ceiling_div_nat [OF assms(3,2)] by simp
  have lens: "\<forall>k<length ?bs. length (?bs ! k) = B"
    using batch_indices_length [OF len assms(2,4)] by (simp del: upt_Suc)
  have sub: "\<Union> (set ` set ?bs) \<subseteq> {0..<N}"
  proof
    fix x assume "x \<in> \<Union> (set ` set ?bs)"
    then obtain nb where "x \<in> set (batch_indices rand_ix N B nb)" by auto
    then have "x \<in> set rand_ix"
      by (auto simp: batch_indices_def slice_def Let_def split: if_splits
            dest: in_set_takeD in_set_dropD)
    then show "x \<in> {0..<N}" using set by simp
  qed
  have sup: "{0..<N} \<subseteq> \<Union> (set ` set ?bs)"
  proof
    fix x assume "x \<in> {0..<N}"
    then have "x \<in> set rand_ix" using set by simp
    then obtain i where i: "i < N" "rand_ix ! i = x"
      using len by (auto simp: in_set_conv_nth)
    have "x \<in> set (batch_indices rand_ix N B (i div B))" "i div B < ?n"
      using batch_indices_cover [OF len assms(3) i(1)] i(2) by simp_all
    then have "batch_indices rand_ix N B (i div B) \<in> set ?bs"
      by (simp del: upt_Suc)
    then show "x \<in> \<Union> (set ` set ?bs)"
      using \<open>x \<in> set (batch_indices rand_ix N B (i div B))\<close> by blast
  qed
  show ?thesis using eq count lens sub sup by blast
qed

text \<open>
  Claim C10. When the batch size is at most \<open>N\<close>, every batch of an epoch holds \<open>B\<close>
  pairwise distinct playlist indices; and when \<open>B\<close> does not divide \<open>N\<close>, the epoch has at
  least two batches, the last one is the tail of the permutation followed by its first
  \<open>B - N mod B\<close> entries, and each of these entries is in the first batch and in the last
  batch of the epoch.
\<close>

theorem batches_distinct_and_overlapping:
  assumes "permutation_of N rand_ix" and "B \<le> N"
    and "epoch_batches rand_ix N B = Inr bs"
  shows "(\<forall>k<length bs. length (bs ! k) = B \<and> distinct (bs ! k)) \<and>
         (\<not> B dvd N \<longrightarrow>
            1 < length bs \<and> 0 < B - N mod B \<and>
            bs ! 0 = take B rand_ix \<and>
            bs ! (length bs - 1) =
              drop (N - N mod B) rand_ix @ take (B - N mod B) rand_ix \<and>
            (\<forall>i<B - N mod B. rand_ix ! i \<in> set (bs ! 0) \<and>
                               rand_ix ! i \<in> set (bs ! (length bs - 1))))"
proof -
  let ?n = "Suc ((N - 1) div B)"
  have B: "0 < B" using assms(3) by (rule epoch_batches_Inr(1))
  then have N: "0 < N" using assms(2) by simp
  have len: "length rand_ix = N" using assms(1) by (rule permutation_of_length)
  have dist: "distinct rand_ix" using assms(1) by (simp add: permutation_of_def)
  have bs: "bs = map (batch_indices rand_ix N B) [0..<?n]"
    using assms(3) N by (rule epoch_batches_Inr(2))
  have B2: "B \<le> 2 * N" using assms(2) by simp
  have part1: "\<forall>k<length bs. length (bs ! k) = B \<and> distinct (bs ! k)"
    using batch_indices_length [OF len N B2] batch_indices_distinct [OF len dist B assms(2)]
    by (simp add: bs del: upt_Suc)
  have part2: "1 < length bs \<and> 0 < B - N mod B \<and>
            bs ! 0 = take B rand_ix \<and>
            bs ! (length bs - 1) =
              drop (N - N mod B) rand_ix @ take (B - N mod B) rand_ix \<and>
            (\<forall>i<B - N mod B. rand_ix ! i \<in> set (bs ! 0) \<and>
                               rand_ix ! i \<in> set (bs ! (length bs - 1)))"
    if ndvd: "\<not> B dvd N"
  proof -
    have modpos: "0 < N mod B" using ndvd by (simp add: dvd_eq_mod_eq_0)
    have modlt: "N mod B < B" using B by simp
    have q: "(N - 1) div B = N div B"
    proof -
      have "N = N div B * B + N mod B" by simp
      then have "N - 1 = N div B * B + (N mod B - 1)"
        using modpos by linarith
      then have "(N - 1) div B = (N div B * B + (N mod B - 1)) div B" by simp
      also have "\<dots> = N div B + (N mod B - 1) div B" using B by simp
      also have "(N mod B - 1) div B = 0" using modlt by simp
      finally show ?thesis by simp
    qed
    have qpos: "0 < N div B" using assms(2) B by (simp add: div_greater_zero_iff)
    have lenbs: "length bs = N div B + 1" using q by (simp add: bs del: upt_Suc)
    have first: "bs ! 0 = take B rand_ix"
      using batch_indices_full [OF len, of 0 B] assms(2) by (simp add: bs del: upt_Suc)
    have start: "N div B * B = N - N mod B"
      by (metis add_diff_cancel_right' div_mult_mod_eq)
    have "N div B * B < N" using modpos start N by simp
    moreover have "N < (N div B + 1) * B"
      using B dividend_less_div_times [of B N] by simp
    ultimately have "batch_indices rand_ix N B (N div B) =
        drop (N div B * B) rand_ix @ take (B - (N - N div B * B)) rand_ix"
      using len by (simp add: batch_indices_last)
    moreover have "N - N div B * B = N mod B"
      by (metis add_diff_cancel_left' div_mult_mod_eq)
    ultimately have last: "bs ! (length bs - 1) =
        drop (N - N mod B) rand_ix @ take (B - N mod B) rand_ix"
      using q by (simp add: bs start del: upt_Suc)
    have mem: "rand_ix ! i \<in> set (take B rand_ix) \<and>
               rand_ix ! i \<in> set (take (B - N mod B) rand_ix)" if "i < B - N mod B" for i
    proof -
      have "i < N" "i < B" using that assms(2) by simp_all
      then show ?thesis using that len by (simp add: in_set_conv_nth) (metis nth_take min_less_iff_conj length_take)
    qed
    show ?thesis using lenbs qpos modlt first last mem by simp
  qed
  show ?thesis using part1 part2 by blast
qed

theorem batches_distinct_and_overlapping_witness:
  "permutation_of 10 [3, 1, 4, 0, 2, 9, 8, 7, 6, 5] \<and> (4::nat) \<le> 10 \<and> \<not> (4::nat) dvd 10 \<and>
   epoch_batches [3, 1, 4, 0, 2, 9, 8, 7, 6, 5] 10 4 =
     Inr [[3, 1, 4, 0], [2, 9, 8, 7], [6, 5, 3, 1]] \<and>
   distinct [6, 5, 3, 1::nat] \<and>
   [6, 5, 3, 1] = drop 8 [3, 1, 4, 0, 2, 9, 8, 7, 6, 5] @ take 2 [3, 1, 4, 0, 2, 9, 8, 7, 6, 5::nat]"
proof -
  have p: "permutation_of 10 [3, 1, 4, 0, 2, 9, 8, 7, 6, 5]"
    by code_simp
  have le: "(4::nat) \<le> 10" by simp
  have e: "epoch_batches [3, 1, 4, 0, 2, 9, 8, 7, 6, 5] 10 4 =
             Inr [[3, 1, 4, 0], [2, 9, 8, 7], [6, 5, 3, 1]]"
    by code_simp
  have nd: "\<not> (4::nat) dvd 10" by simp
  from batches_distinct_and_overlapping [OF p le e] nd
  have "distinct ([[3, 1, 4, 0], [2, 9, 8, 7], [6, 5, 3, 1::nat]] ! 2)"
    and "[[3, 1, 4, 0], [2, 9, 8, 7], [6, 5, 3, 1::nat]] ! (3 - 1) =
         drop (10 - 10 mod 4) [3, 1, 4, 0, 2, 9, 8, 7, 6, 5] @
         take (4 - 10 mod 4) [3, 1, 4, 0, 2, 9, 8, 7, 6, 5]"
    by simp_all
  then show ?thesis using p le e nd by simp
qed

text \<open>
  Claim C3, at one playlist and batch size four. The single batch of the epoch is the
  one index followed by the padding \<open>rand_ix[:3]\<close>, which has one entry only: the batch
  has two indices, not four. For an empty \<open>Y\<close> the notebook computes one batch where
  \<open>ceil(N / B)\<close> is zero.
\<close>

theorem padded_batch_too_short:
  "permutation_of 1 [0] \<and> epoch_batches [0] 1 4 = Inr [[0, 0]] \<and>
   n_batches 0 4 = Inr 1 \<and> \<lceil>real (0::nat) / real (4::nat)\<rceil> = 0"
  by (simp add: permutation_of_def epoch_batches_def n_batches_def int_truediv_def
        py_range_def batch_indices_def slice_def)

section \<open>Properties of the batch statistics\<close>

lemma canonical_row_columns:
  assumes "canonical_row M row"
  shows "map fst row = filter (\<lambda>m. (m, True) \<in> set row) [0..<M]"
proof -
  let ?cs = "map fst row"
  have all: "\<forall>e\<in>set row. fst e < M \<and> snd e"
    using assms by (simp add: canonical_row_def list_all_iff)
  have mem: "(m, True) \<in> set row \<longleftrightarrow> m \<in> set ?cs" for m
    using all by force
  have "sorted ?cs \<and> distinct ?cs"
    using assms by (simp add: canonical_row_def strict_sorted_iff)
  moreover have "sorted (filter (\<lambda>m. m \<in> set ?cs) [0..<M])"
    by (rule sorted_wrt_filter) simp
  moreover have "distinct (filter (\<lambda>m. m \<in> set ?cs) [0..<M])"
    by simp
  moreover have "set (filter (\<lambda>m. m \<in> set ?cs) [0..<M]) = set ?cs"
    using all by auto
  ultimately have "filter (\<lambda>m. m \<in> set ?cs) [0..<M] = ?cs"
    by (metis sorted_distinct_set_unique)
  then show ?thesis by (simp add: mem)
qed

lemma canonical_row_count:
  assumes "canonical_row M row"
  shows "length (filter snd row) = length row"
proof -
  have "\<forall>e\<in>set row. snd e"
    using assms by (simp add: canonical_row_def list_all_iff)
  then have "filter snd row = row" by (simp add: filter_id_conv)
  then show ?thesis by simp
qed

lemma zip_coo_rows:
  "zip (concat (map (\<lambda>(r, row). replicate (length row) r) ers))
       (concat (map (map fst) (map snd ers))) =
   concat (map (\<lambda>(r, row). map (\<lambda>e. (r, fst e)) row) ers)"
proof (induction ers)
  case Nil
  then show ?case by simp
next
  case (Cons a ers)
  obtain r row where a: "a = (r, row)" by (cases a)
  have "zip (replicate (length row) r) (map fst row) = map (\<lambda>e. (r, fst e)) row"
    by (induction row) simp_all
  then show ?case using Cons a by (simp add: zip_append)
qed

lemma enumerate_map_nth:
  "enumerate 0 (map f indices) = map (\<lambda>r. (r, f (indices ! r))) [0..<length indices]"
  by (rule nth_equalityI) (simp_all add: nth_enumerate_eq)

lemma canonical_rowD:
  assumes "canonical Y" "n < fst (shape Y)"
  shows "canonical_row (snd (shape Y)) (stored Y ! n)"
  using assms by (simp add: canonical_def list_all_length)

lemma canonical_positive_columns:
  assumes "canonical Y" "n < fst (shape Y)"
  shows "map fst (stored Y ! n) = positive_columns Y n"
  using canonical_row_columns [OF canonical_rowD [OF assms]]
  by (simp add: positive_columns_def Y_at_def [abs_def])

lemma canonical_positive_count:
  assumes "canonical Y" "n < fst (shape Y)"
  shows "length (filter snd (stored Y ! n)) = positive_count Y n"
proof -
  have "length (filter snd (stored Y ! n)) = length (map fst (stored Y ! n))"
    using canonical_row_count [OF canonical_rowD [OF assms]] by simp
  then show ?thesis
    by (simp only: canonical_positive_columns [OF assms] positive_count_def)
qed

lemma coo_pairs:
  "zip (fst (tocoo Y)) (snd (tocoo Y)) =
   concat (map (\<lambda>(r, row). map (\<lambda>e. (r, fst e)) row) (enumerate 0 (stored Y)))"
proof -
  have "map (map fst) (stored Y) = map (map fst) (map snd (enumerate 0 (stored Y)))"
    by simp
  then show ?thesis
    unfolding tocoo_def fst_conv snd_conv by (simp only: zip_coo_rows)
qed

lemma coo_row_length:
  "length (concat (map (\<lambda>(r, row). replicate (length row) r) ers)) =
   length (concat (map (map fst) (map snd ers)))"
  by (induction ers) auto

lemma coo_lengths: "length (fst (tocoo Y)) = length (snd (tocoo Y))"
proof -
  have "map (map fst) (stored Y) = map (map fst) (map snd (enumerate 0 (stored Y)))"
    by simp
  then show ?thesis
    unfolding tocoo_def fst_conv snd_conv by (simp only: coo_row_length)
qed

lemma length_positive_pairs:
  "length (positive_pairs Y indices) = sum_list (map (positive_count Y) indices)"
proof -
  have "map (\<lambda>r. positive_count Y (indices ! r)) [0..<length indices] =
        map (positive_count Y) indices"
    by (rule nth_equalityI) simp_all
  then show ?thesis
    by (simp add: positive_pairs_def length_concat comp_def positive_count_def)
qed

lemma batch_rows_pairs:
  assumes "canonical Y" and "list_all (\<lambda>i. i < fst (shape Y)) indices"
  shows "zip (fst (tocoo \<lparr>shape = shp, stored = map (\<lambda>i. stored Y ! i) indices\<rparr>))
             (snd (tocoo \<lparr>shape = shp, stored = map (\<lambda>i. stored Y ! i) indices\<rparr>)) =
         positive_pairs Y indices"
proof -
  let ?Y_nb = "\<lparr>shape = shp, stored = map (\<lambda>i. stored Y ! i) indices\<rparr>"
  have inb: "indices ! r < fst (shape Y)" if "r < length indices" for r
    using assms(2) that by (simp add: list_all_length)
  have "zip (fst (tocoo ?Y_nb)) (snd (tocoo ?Y_nb)) =
        concat (map (\<lambda>r. map (\<lambda>e. (r, fst e)) (stored Y ! (indices ! r))) [0..<length indices])"
    by (simp add: coo_pairs enumerate_map_nth comp_def)
  also have "\<dots> = concat (map (\<lambda>r. map (\<lambda>m. (r, m)) (map fst (stored Y ! (indices ! r))))
                       [0..<length indices])"
    by (simp add: comp_def)
  also have "\<dots> = positive_pairs Y indices"
    unfolding positive_pairs_def
    by (rule arg_cong [where f = concat], rule map_cong)
       (simp_all add: canonical_positive_columns [OF assms(1) inb])
  finally show ?thesis .
qed

lemma batch_rows_counts:
  assumes "canonical Y" and "list_all (\<lambda>i. i < fst (shape Y)) indices"
  shows "map real (sum_axis1 \<lparr>shape = shp, stored = map (\<lambda>i. stored Y ! i) indices\<rparr>) =
         map (\<lambda>r. real (positive_count Y (indices ! r))) [0..<length indices]"
proof -
  have inb: "indices ! r < fst (shape Y)" if "r < length indices" for r
    using assms(2) that by (simp add: list_all_length)
  show ?thesis
    by (rule nth_equalityI)
       (simp_all add: sum_axis1_def canonical_positive_count [OF assms(1) inb])
qed

lemma batch_feed_fields:
  assumes "canonical Y" and "batch_feed Y indices = Inr fd"
  shows "feed_posIx fd = positive_pairs Y indices"
    and "feed_Mplus fd = map (\<lambda>r. real (positive_count Y (indices ! r))) [0..<length indices]"
    and "feed_nPos fd = length (positive_pairs Y indices)"
proof -
  let ?Y_nb = "\<lparr>shape = (length indices, snd (shape Y)),
                stored = map (\<lambda>i. stored Y ! i) indices\<rparr>"
  have inb: "list_all (\<lambda>i. i < fst (shape Y)) indices"
    using assms(2) by (auto simp: batch_feed_def getrows_def split: if_splits)
  then have fd: "fd = \<lparr>feed_pIx = indices, feed_Mplus = map real (sum_axis1 ?Y_nb),
                        feed_nPos = length (fst (tocoo ?Y_nb)),
                        feed_posIx = zip (fst (tocoo ?Y_nb)) (snd (tocoo ?Y_nb))\<rparr>"
    using assms(2) by (simp add: batch_feed_def getrows_def Let_def)
  show "feed_posIx fd = positive_pairs Y indices"
    unfolding fd by (simp add: batch_rows_pairs [OF assms(1) inb])
  show "feed_Mplus fd = map (\<lambda>r. real (positive_count Y (indices ! r))) [0..<length indices]"
    unfolding fd by (simp add: batch_rows_counts [OF assms(1) inb] del: map_map)
  have "length (fst (tocoo ?Y_nb)) = length (zip (fst (tocoo ?Y_nb)) (snd (tocoo ?Y_nb)))"
    by (simp add: coo_lengths)
  then show "feed_nPos fd = length (positive_pairs Y indices)"
    unfolding fd by (simp add: batch_rows_pairs [OF assms(1) inb])
qed

text \<open>
  Claim C7. For a matrix \<open>Y\<close> in canonical form and playlist indices that are rows of \<open>Y\<close>,
  the feed of a batch is: \<open>pIx\<close> the indices themselves; \<open>posIx\<close> the pairs (row of the
  batch, song column) with \<open>Y[indices[row], song] = 1\<close>, in row-major order; \<open>Mplus\<close> the
  number of positive entries of each batch row; and \<open>nPos\<close> the number of positive
  entries of the whole batch.
\<close>

theorem batch_feed_statistics:
  assumes "canonical Y" and "list_all (\<lambda>i. i < fst (shape Y)) indices"
  shows "batch_feed Y indices =
           Inr \<lparr>feed_pIx = indices,
                feed_Mplus = map (\<lambda>r. real (positive_count Y (indices ! r))) [0..<length indices],
                feed_nPos = sum_list (map (positive_count Y) indices),
                feed_posIx = positive_pairs Y indices\<rparr>"
proof -
  let ?Y_nb = "\<lparr>shape = (length indices, snd (shape Y)),
                stored = map (\<lambda>i. stored Y ! i) indices\<rparr>"
  have rows: "getrows Y indices = Inr ?Y_nb"
    using assms(2) by (simp add: getrows_def)
  have pairs: "zip (fst (tocoo ?Y_nb)) (snd (tocoo ?Y_nb)) = positive_pairs Y indices"
    using assms by (rule batch_rows_pairs)
  have counts: "map real (sum_axis1 ?Y_nb) =
                map (\<lambda>r. real (positive_count Y (indices ! r))) [0..<length indices]"
    using assms by (rule batch_rows_counts)
  have "length (fst (tocoo ?Y_nb)) = length (zip (fst (tocoo ?Y_nb)) (snd (tocoo ?Y_nb)))"
    by (simp add: coo_lengths)
  then have npos: "length (fst (tocoo ?Y_nb)) = sum_list (map (positive_count Y) indices)"
    by (simp only: pairs length_positive_pairs)
  show ?thesis
    unfolding batch_feed_def rows by (simp add: Let_def pairs counts npos del: map_map)
qed

theorem batch_feed_statistics_witness:
  "canonical \<lparr>shape = (3, 4),
              stored = [[(0, True), (2, True)], [], [(1, True), (2, True), (3, True)]]\<rparr> \<and>
   batch_feed \<lparr>shape = (3, 4),
              stored = [[(0, True), (2, True)], [], [(1, True), (2, True), (3, True)]]\<rparr>
     [2, 0, 1, 2] =
     Inr \<lparr>feed_pIx = [2, 0, 1, 2], feed_Mplus = [3, 2, 0, 3], feed_nPos = 8,
          feed_posIx = [(0, 1), (0, 2), (0, 3), (1, 0), (1, 2), (3, 1), (3, 2), (3, 3)]\<rparr>"
proof -
  let ?Y = "\<lparr>shape = (3, 4),
             stored = [[(0, True), (2, True)], [], [(1, True), (2, True), (3, True)]]\<rparr>"
  have c: "canonical ?Y"
    by (simp add: canonical_def canonical_row_def)
  have r: "list_all (\<lambda>i. i < fst (shape ?Y)) [2, 0, 1, 2]"
    by simp
  have pairs: "positive_pairs ?Y [2, 0, 1, 2] =
      [(0, 1), (0, 2), (0, 3), (1, 0), (1, 2), (3, 1), (3, 2), (3, 3)]"
    by code_simp
  have counts: "map (\<lambda>r. real (positive_count ?Y ([2, 0, 1, 2] ! r))) [0..<length [2, 0, 1, 2::nat]] =
      [3, 2, 0, 3]"
    by code_simp
  have total: "sum_list (map (positive_count ?Y) [2, 0, 1, 2]) = 8"
    by code_simp
  show ?thesis
    using batch_feed_statistics [OF c r] c unfolding pairs counts total by simp
qed

section \<open>Properties of the cost\<close>

lemma tile_singleton: "tile [x] n = replicate n x"
  by (induction n) (simp_all add: tile_def)

lemma zeros_mask: "zeros (Nb, M) = mask_matrix Nb M {}"
  by (simp add: zeros_def mask_matrix_def map_replicate_const)

lemma add_at_mask:
  assumes "r < Nb" "m < M"
  shows "add_at (r, m) NegInf (mask_matrix Nb M A) = mask_matrix Nb M (insert (r, m) A)"
proof (rule nth_equalityI)
  show "length (add_at (r, m) NegInf (mask_matrix Nb M A)) =
        length (mask_matrix Nb M (insert (r, m) A))"
    by (simp add: add_at_def mask_matrix_def)
next
  fix i assume "i < length (add_at (r, m) NegInf (mask_matrix Nb M A))"
  then have i: "i < Nb" by (simp add: add_at_def mask_matrix_def)
  show "add_at (r, m) NegInf (mask_matrix Nb M A) ! i =
        mask_matrix Nb M (insert (r, m) A) ! i"
  proof (cases "i = r")
    case False
    then show ?thesis using i by (simp add: add_at_def mask_matrix_def)
  next
    case True
    have "(map (\<lambda>m. if (r, m) \<in> A then NegInf else Fin 0) [0..<M])
            [m := fl_add (if (r, m) \<in> A then NegInf else Fin 0) NegInf] =
          map (\<lambda>m'. if (r, m') \<in> insert (r, m) A then NegInf else Fin 0) [0..<M]"
      using assms(2) by (intro nth_equalityI) (auto simp: nth_list_update)
    then show ?thesis using True assms by (simp add: add_at_def mask_matrix_def)
  qed
qed

lemma scatter_fold_mask:
  assumes "list_all (\<lambda>ix. fst ix < Nb \<and> snd ix < M) ixs"
  shows "foldl (\<lambda>A (ix, u). add_at ix u A) (mask_matrix Nb M A)
           (zip ixs (replicate (length ixs) NegInf)) =
         mask_matrix Nb M (A \<union> set ixs)"
  using assms
proof (induction ixs arbitrary: A)
  case Nil
  then show ?case by simp
next
  case (Cons ix ixs)
  obtain r m where ix: "ix = (r, m)" by (cases ix)
  have "r < Nb" "m < M" using Cons.prems ix by simp_all
  then have "add_at ix NegInf (mask_matrix Nb M A) = mask_matrix Nb M (insert (r, m) A)"
    unfolding ix by (rule add_at_mask)
  moreover have "list_all (\<lambda>ix. fst ix < Nb \<and> snd ix < M) ixs"
    using Cons.prems by simp
  ultimately show ?case using Cons.IH [of "insert (r, m) A"] ix by simp
qed

lemma scatter_nd_mask:
  assumes "in_range Nb M posIx"
  shows "scatter_nd (Nb, M) posIx (tile [NegInf] (length posIx)) =
           Inr (mask_matrix Nb M (set posIx))"
  using assms scatter_fold_mask [of Nb M posIx "{}"]
  by (simp add: scatter_nd_def tile_singleton in_range_def zeros_mask)

lemma masked_scores_eq:
  assumes "score_matrix M T" "in_range (length T) M posIx"
  shows "masked_scores M T posIx (length posIx) =
           Inr (map (T_masked_row M T posIx) [0..<length T])"
proof -
  have len: "length (T ! r) = M" if "r < length T" for r
    using assms(1) that by (simp add: score_matrix_def list_all_length)
  have "map2 (\<lambda>row mrow. map2 (\<lambda>t u. fl_add (Fin t) u) row mrow) T
          (mask_matrix (length T) M (set posIx)) =
        map (T_masked_row M T posIx) [0..<length T]"
  proof (rule nth_equalityI)
    show "length (map2 (\<lambda>row mrow. map2 (\<lambda>t u. fl_add (Fin t) u) row mrow) T
             (mask_matrix (length T) M (set posIx))) =
          length (map (T_masked_row M T posIx) [0..<length T])"
      by (simp add: mask_matrix_def)
  next
    fix r
    assume "r < length (map2 (\<lambda>row mrow. map2 (\<lambda>t u. fl_add (Fin t) u) row mrow) T
             (mask_matrix (length T) M (set posIx)))"
    then have r: "r < length T" by (simp add: mask_matrix_def)
    have "map2 (\<lambda>t u. fl_add (Fin t) u) (T ! r)
            (map (\<lambda>m. if (r, m) \<in> set posIx then NegInf else Fin 0) [0..<M]) =
          T_masked_row M T posIx r"
      using len [OF r] by (intro nth_equalityI) (auto simp: T_masked_row_def)
    then show "map2 (\<lambda>row mrow. map2 (\<lambda>t u. fl_add (Fin t) u) row mrow) T
                 (mask_matrix (length T) M (set posIx)) ! r =
               map (T_masked_row M T posIx) [0..<length T] ! r"
      using r by (simp add: mask_matrix_def)
  qed
  then show ?thesis
    using assms(2) by (simp add: masked_scores_def scatter_nd_mask err_bind_def)
qed

lemma max_negs_eq:
  assumes "score_matrix M T" "in_range (length T) M posIx"
  shows "max_negs M T posIx (length posIx) = Inr (map (max_neg M T posIx) [0..<length T])"
  using masked_scores_eq [OF assms]
  by (simp add: max_negs_def err_bind_def max_neg_def [abs_def] comp_def)

lemma reduce_max_masked:
  "reduce_max (map (\<lambda>m. if P m then NegInf else Fin (f m)) ms) =
     (if \<forall>m\<in>set ms. P m then NegInf else Fin (Max (f ` {m \<in> set ms. \<not> P m})))"
proof (induction ms)
  case Nil
  then show ?case by (simp add: reduce_max_def)
next
  case (Cons a ms)
  let ?rest = "reduce_max (map (\<lambda>m. if P m then NegInf else Fin (f m)) ms)"
  have unfold: "reduce_max (map (\<lambda>m. if P m then NegInf else Fin (f m)) (a # ms)) =
                fl_max (if P a then NegInf else Fin (f a)) ?rest"
    by (simp add: reduce_max_def)
  show ?case
  proof (cases "P a")
    case True
    then have "{m \<in> set (a # ms). \<not> P m} = {m \<in> set ms. \<not> P m}" by auto
    then show ?thesis using True Cons.IH unfold by simp
  next
    case False
    show ?thesis
    proof (cases "\<forall>m\<in>set ms. P m")
      case True
      then have "{m \<in> set (a # ms). \<not> P m} = {a}" using False by auto
      then show ?thesis using False True Cons.IH unfold by simp
    next
      case allF: False
      have eq: "{m \<in> set (a # ms). \<not> P m} = insert a {m \<in> set ms. \<not> P m}"
        using False by auto
      have ne: "f ` {m \<in> set ms. \<not> P m} \<noteq> {}" using allF by auto
      have mx: "Max (f ` {m \<in> set (a # ms). \<not> P m}) =
                max (f a) (Max (f ` {m \<in> set ms. \<not> P m}))"
        unfolding eq using ne by simp
      have rest: "?rest = Fin (Max (f ` {m \<in> set ms. \<not> P m}))"
        using allF Cons.IH by (simp only: if_False)
      have "\<not> (\<forall>m\<in>set (a # ms). P m)" using False by simp
      then have "(if \<forall>m\<in>set (a # ms). P m then NegInf
                  else Fin (Max (f ` {m \<in> set (a # ms). \<not> P m}))) =
                 Fin (Max (f ` {m \<in> set (a # ms). \<not> P m}))"
        by (simp only: if_False)
      moreover have "fl_max (if P a then NegInf else Fin (f a)) ?rest =
                     Fin (max (f a) (Max (f ` {m \<in> set ms. \<not> P m})))"
        using False by (simp add: rest)
      ultimately show ?thesis by (simp only: unfold mx)
    qed
  qed
qed

lemma max_neg_eq:
  "max_neg M T posIx r =
     (if \<forall>m\<in>set [0..<M]. (r, m) \<in> set posIx then NegInf
      else Fin (Max (negative_scores M T posIx r)))"
  unfolding max_neg_def T_masked_row_def negative_scores_def
  by (rule reduce_max_masked)

lemma hinge_term_nonneg:
  assumes "0 < Mplus ! fst p"
  shows "\<exists>t. 0 \<le> t \<and> hinge_term M T posIx Mplus p = Fin t"
proof (cases "\<forall>m\<in>set [0..<M]. (fst p, m) \<in> set posIx")
  case True
  then have "max_neg M T posIx (fst p) = NegInf" by (simp add: max_neg_eq)
  then have "hinge_term M T posIx Mplus p = Fin 0"
    using assms by (simp add: hinge_term_def)
  then show ?thesis by simp
next
  case False
  then obtain x where "max_neg M T posIx (fst p) = Fin x" by (simp add: max_neg_eq)
  then have "hinge_term M T posIx Mplus p =
             Fin (max ((1 - T ! fst p ! snd p + x) / Mplus ! fst p) 0 *
                  max ((1 - T ! fst p ! snd p + x) / Mplus ! fst p) 0)"
    using assms by (simp add: hinge_term_def Let_def)
  then show ?thesis by simp
qed

lemma reduce_sum_Fin: "reduce_sum (map Fin ts) = Fin (sum_list ts)"
  by (induction ts) (simp_all add: reduce_sum_def)

lemma reduce_sum_nonneg:
  assumes "\<forall>x\<in>set xs. \<exists>t. 0 \<le> t \<and> x = Fin t"
  shows "\<exists>s. 0 \<le> s \<and> reduce_sum xs = Fin s"
  using assms
proof (induction xs)
  case Nil
  then show ?case by (simp add: reduce_sum_def)
next
  case (Cons x xs)
  then obtain t s where "0 \<le> t" "x = Fin t" "0 \<le> s" "reduce_sum xs = Fin s"
    by auto
  then have "reduce_sum (x # xs) = Fin (t + s)" "0 \<le> t + s"
    by (simp_all add: reduce_sum_def)
  then show ?case by blast
qed

lemma top_push_loss_nonneg:
  assumes "\<forall>p\<in>set posIx. 0 < Mplus ! fst p" "0 < length T"
  shows "\<exists>l. 0 \<le> l \<and> top_push_loss M T posIx Mplus = Fin l"
proof -
  have "\<forall>x\<in>set (map (hinge_term M T posIx Mplus) posIx). \<exists>t. 0 \<le> t \<and> x = Fin t"
    using assms(1) hinge_term_nonneg by auto
  then obtain s where s: "0 \<le> s" "reduce_sum (map (hinge_term M T posIx Mplus) posIx) = Fin s"
    using reduce_sum_nonneg by blast
  then have "top_push_loss M T posIx Mplus = Fin (s / real (length T))"
    using assms(2) by (simp add: top_push_loss_def)
  moreover have "0 \<le> s / real (length T)" using s(1) by simp
  ultimately show ?thesis by blast
qed

lemma cost_of_scores_eq:
  assumes "score_matrix M T" "in_range (length T) M posIx" "length Mplus = length T"
  shows "cost_of_scores M T posIx Mplus (length posIx) = Inr (top_push_loss M T posIx Mplus)"
proof -
  have rng: "fst ix < length T \<and> snd ix < M" if "ix \<in> set posIx" for ix
    using assms(2) that by (simp add: in_range_def list_all_iff)
  have len: "length (T ! r) = M" if "r < length T" for r
    using assms(1) that by (simp add: score_matrix_def list_all_length)
  have "list_all (valid_index T) posIx"
    using rng len by (simp add: list_all_iff valid_index_def)
  then have g1: "gather_nd T posIx = Inr (map (\<lambda>ix. T ! fst ix ! snd ix) posIx)"
    by (simp add: gather_nd_def)
  have g2: "gather (map (max_neg M T posIx) [0..<length T]) (map fst posIx) =
            Inr (map (\<lambda>ix. max_neg M T posIx (fst ix)) posIx)"
    using rng by (simp add: gather_def list_all_iff comp_def)
  have g3: "gather Mplus (map fst posIx) = Inr (map (\<lambda>ix. Mplus ! fst ix) posIx)"
    using rng assms(3) by (simp add: gather_def list_all_iff comp_def)
  show ?thesis
    unfolding cost_of_scores_def g1 max_negs_eq [OF assms(1,2)]
    by (simp add: err_bind_def g2 g3 Let_def top_push_loss_def hinge_term_def [abs_def]
          map2_map_map comp_def zip_map_map zip_same_conv_map)
qed

text \<open>
  Claim C1. For a score matrix \<open>T\<close> of \<open>B > 0\<close> rows and \<open>M\<close> columns, positive pairs inside
  that shape and one count per batch row that is positive wherever the row has a
  positive pair, the cost of the graph is \<open>1 / B\<close> times the sum, over the positive pairs
  \<open>(row, song)\<close>, of \<open>relu((1 - T[row, song] + max_neg[row]) / Mplus[row])\<close> squared, where
  \<open>max_neg[row]\<close> is the maximum of the row of \<open>T\<close> with its positive entries replaced by
  \<open>-inf\<close>. The divisor is the number of rows of \<open>T\<close>, not the number of pairs, and the
  cost is a non-negative real number.
\<close>

theorem cost_is_top_push_loss:
  assumes "score_matrix M T" and "in_range (length T) M posIx"
    and "length Mplus = length T" and "0 < length T"
    and "\<forall>p\<in>set posIx. 0 < Mplus ! fst p"
  shows "cost_of_scores M T posIx Mplus (length posIx) = Inr (top_push_loss M T posIx Mplus) \<and>
         (\<exists>l. 0 \<le> l \<and> top_push_loss M T posIx Mplus = Fin l)"
  using cost_of_scores_eq [OF assms(1,2,3)] top_push_loss_nonneg [OF assms(5,4)]
  by simp

theorem cost_is_top_push_loss_witness:
  "score_matrix 4 [[1, 2, 3, 4], [0, 5, 1, 2]] \<and>
   in_range 2 4 [(0, 1), (1, 0), (1, 2)] \<and>
   cost_of_scores 4 [[1, 2, 3, 4], [0, 5, 1, 2]] [(0, 1), (1, 0), (1, 2)] [1, 2] 3 =
     Inr (Fin (97 / 8))"
proof -
  let ?T = "[[1, 2, 3, 4], [0, 5, 1, 2::real]]"
  let ?ix = "[(0, 1), (1, 0), (1, 2::nat)] :: (nat \<times> nat) list"
  have s: "score_matrix 4 ?T" by (simp add: score_matrix_def)
  have r: "in_range (length ?T) 4 ?ix" by (simp add: in_range_def)
  have l: "length [1, 2::real] = length ?T" "0 < length ?T" by simp_all
  have m: "\<forall>p\<in>set ?ix. 0 < [1, 2::real] ! fst p" by simp
  have v: "top_push_loss 4 ?T ?ix [1, 2] = Fin (97 / 8)"
    by code_simp
  have n: "length ?ix = 3" "length ?T = 2" by simp_all
  note t = cost_is_top_push_loss [OF s r l m, unfolded v n]
  show ?thesis
    using t s r [unfolded n] by blast
qed

text \<open>
  Claim C2. Under the same shape conditions the masked matrix \<open>Tn\<close> has \<open>-inf\<close> at every
  positive pair, and for every batch row with at least one song outside the playlist
  \<open>max_negs\<close> is the greatest score among the songs outside the playlist. The scores of
  \<open>T\<close> are real numbers, hence finite.
\<close>

theorem positives_never_reach_max:
  assumes "score_matrix M T" and "in_range (length T) M posIx"
  shows "\<exists>Tn mx. masked_scores M T posIx (length posIx) = Inr Tn \<and>
           max_negs M T posIx (length posIx) = Inr mx \<and>
           (\<forall>p\<in>set posIx. Tn ! fst p ! snd p = NegInf) \<and>
           (\<forall>r<length T. negative_scores M T posIx r \<noteq> {} \<longrightarrow>
              mx ! r = Fin (Max (negative_scores M T posIx r)))"
proof -
  let ?Tn = "map (T_masked_row M T posIx) [0..<length T]"
  let ?mx = "map (max_neg M T posIx) [0..<length T]"
  have rng: "fst p < length T \<and> snd p < M" if "p \<in> set posIx" for p
    using assms(2) that by (simp add: in_range_def list_all_iff)
  have "?Tn ! fst p ! snd p = NegInf" if "p \<in> set posIx" for p
    using rng [OF that] that by (simp add: T_masked_row_def)
  moreover have "?mx ! r = Fin (Max (negative_scores M T posIx r))"
    if "r < length T" "negative_scores M T posIx r \<noteq> {}" for r
  proof -
    have "\<not> (\<forall>m\<in>set [0..<M]. (r, m) \<in> set posIx)"
      using that(2) by (auto simp: negative_scores_def)
    then have "max_neg M T posIx r = Fin (Max (negative_scores M T posIx r))"
      by (simp only: max_neg_eq if_False)
    then show ?thesis using that(1) by simp
  qed
  ultimately show ?thesis
    using masked_scores_eq [OF assms] max_negs_eq [OF assms] by blast
qed

theorem positives_never_reach_max_witness:
  "score_matrix 3 [[1, 9, 3], [7, 2, 8]] \<and> in_range 2 3 [(0, 1), (1, 2)] \<and>
   masked_scores 3 [[1, 9, 3], [7, 2, 8]] [(0, 1), (1, 2)] 2 =
     Inr [[Fin 1, NegInf, Fin 3], [Fin 7, Fin 2, NegInf]] \<and>
   max_negs 3 [[1, 9, 3], [7, 2, 8]] [(0, 1), (1, 2)] 2 = Inr [Fin 3, Fin 7] \<and>
   Max (negative_scores 3 [[1, 9, 3], [7, 2, 8]] [(0, 1), (1, 2)] 0) = 3"
proof -
  let ?T = "[[1, 9, 3], [7, 2, 8::real]]"
  let ?ix = "[(0, 1), (1, 2)] :: (nat \<times> nat) list"
  have s: "score_matrix 3 ?T" by (simp add: score_matrix_def)
  have r: "in_range (length ?T) 3 ?ix" by (simp add: in_range_def)
  have tn: "masked_scores 3 ?T ?ix 2 = Inr [[Fin 1, NegInf, Fin 3], [Fin 7, Fin 2, NegInf]]"
    by code_simp
  have mx: "max_negs 3 ?T ?ix 2 = Inr [Fin 3, Fin 7]"
    by code_simp
  have ne: "negative_scores 3 ?T ?ix 0 \<noteq> {}"
    by code_simp
  have n: "length ?ix = 2" "length ?T = 2" by simp_all
  from positives_never_reach_max [OF s r, unfolded n]
  obtain Tn mx' where a: "max_negs 3 ?T ?ix 2 = Inr mx'"
    and b: "\<forall>r<2. negative_scores 3 ?T ?ix r \<noteq> {} \<longrightarrow>
                 mx' ! r = Fin (Max (negative_scores 3 ?T ?ix r))"
    by blast
  have "mx' = [Fin 3, Fin 7]" using a mx by simp
  moreover have "mx' ! 0 = Fin (Max (negative_scores 3 ?T ?ix 0))"
    using b ne by simp
  ultimately have "Max (negative_scores 3 ?T ?ix 0) = 3" by simp
  then show ?thesis using s r [unfolded n] tn mx by blast
qed

subsection \<open>Degenerate rows\<close>

lemma positive_pairs_mem:
  "p \<in> set (positive_pairs Y indices) \<longleftrightarrow>
     fst p < length indices \<and> snd p \<in> set (positive_columns Y (indices ! fst p))"
  by (cases p) (auto simp: positive_pairs_def)

lemma positive_columns_range:
  "m \<in> set (positive_columns Y n) \<Longrightarrow> m < snd (shape Y)"
  by (simp add: positive_columns_def)

lemma positive_pairs_in_range:
  "in_range (length indices) (snd (shape Y)) (positive_pairs Y indices)"
  by (auto simp: in_range_def list_all_iff positive_pairs_mem dest: positive_columns_range)

lemma positive_pairs_count_pos:
  assumes "p \<in> set (positive_pairs Y indices)"
  shows "0 < positive_count Y (indices ! fst p)"
  using assms by (auto simp: positive_pairs_mem positive_count_def)

lemma no_positives_no_pairs:
  assumes "positive_count Y (indices ! r) = 0" "p \<in> set (positive_pairs Y indices)"
  shows "fst p \<noteq> r"
  using assms by (auto simp: positive_pairs_mem positive_count_def)

lemma all_positive_all_pairs:
  assumes "positive_count Y (indices ! r) = snd (shape Y)" "r < length indices"
    "m < snd (shape Y)"
  shows "(r, m) \<in> set (positive_pairs Y indices)"
proof -
  let ?P = "Y_at Y (indices ! r)"
  let ?ms = "[0..<snd (shape Y)]"
  have "length (filter ?P ?ms) = length ?ms"
    using assms(1) by (simp add: positive_count_def positive_columns_def)
  moreover have "length (filter ?P ?ms) + length (filter (\<lambda>m. \<not> ?P m) ?ms) = length ?ms"
    by (rule sum_length_filter_compl)
  ultimately have "filter (\<lambda>m. \<not> ?P m) ?ms = []" by simp
  then have "\<forall>m\<in>set ?ms. ?P m" by (simp add: filter_empty_conv)
  then have "m \<in> set (positive_columns Y (indices ! r))"
    using assms(3) by (simp add: positive_columns_def)
  then show ?thesis using assms(2) by (simp add: positive_pairs_mem)
qed

lemma hinge_term_no_negatives:
  assumes "\<forall>m\<in>set [0..<M]. (fst p, m) \<in> set posIx" "0 < Mplus ! fst p"
  shows "hinge_term M T posIx Mplus p = Fin 0"
proof -
  have "max_neg M T posIx (fst p) = NegInf" using assms(1) by (simp add: max_neg_eq)
  then show ?thesis using assms(2) by (simp add: hinge_term_def)
qed

lemma hinge_term_other_row:
  assumes "fst p \<noteq> r"
  shows "hinge_term M (T[r := row]) posIx Mplus p = hinge_term M T posIx Mplus p"
proof -
  have e: "T[r := row] ! fst p = T ! fst p"
    using assms by (metis nth_list_update_neq)
  show ?thesis unfolding hinge_term_def max_neg_def T_masked_row_def e ..
qed

lemma score_matrix_update:
  assumes "score_matrix M T" "length row = M"
  shows "score_matrix M (T[r := row])"
  using assms by (auto simp: score_matrix_def list_all_iff dest: set_update_subset_insert [THEN subsetD])

lemma constant_loss_derivative:
  assumes "\<And>s. f s = c"
  shows "((\<lambda>s. loss_value (f s)) has_real_derivative 0) (at x)"
proof -
  have "(\<lambda>s. loss_value (f s)) = (\<lambda>s. loss_value c)" using assms by simp
  then show ?thesis by simp
qed

lemma batch_cost_real:
  assumes "canonical Y" and "batch_feed Y indices = Inr fd"
    and "score_matrix (snd (shape Y)) T" and "length T = length indices" and "indices \<noteq> []"
  shows "\<exists>l. 0 \<le> l \<and>
           cost_of_scores (snd (shape Y)) T (feed_posIx fd) (feed_Mplus fd) (feed_nPos fd) =
             Inr (Fin l)"
proof -
  let ?M = "snd (shape Y)"
  let ?ix = "positive_pairs Y indices"
  let ?Mp = "map (\<lambda>r. real (positive_count Y (indices ! r))) [0..<length indices]"
  have fd: "feed_posIx fd = ?ix" "feed_Mplus fd = ?Mp" "feed_nPos fd = length ?ix"
    using assms(1,2) by (rule batch_feed_fields)+
  have rng: "in_range (length T) ?M ?ix"
    using positive_pairs_in_range [of indices Y] by (simp add: assms(4))
  have lenM: "length ?Mp = length T" by (simp add: assms(4))
  have Tpos: "0 < length T" using assms(4,5) by simp
  have Mpos: "\<forall>p\<in>set ?ix. 0 < ?Mp ! fst p"
    using positive_pairs_count_pos by (auto simp: positive_pairs_mem)
  show ?thesis
    unfolding fd
    using cost_of_scores_eq [OF assms(3) rng lenM] top_push_loss_nonneg [OF Mpos Tpos]
    by simp
qed

text \<open>
  Claim C6. Take a batch of a canonical \<open>Y\<close>, any real score matrix of its shape, and a
  batch row \<open>r\<close> that has no positive entry or no negative entry. Then every count the
  graph divides by is positive (only the counts of rows with a positive pair are
  gathered) and so is the batch size; the cost is a non-negative real number, not a NaN;
  every term of row \<open>r\<close> in the sum is zero; the cost is the same whatever the scores
  of row \<open>r\<close> are; and its derivative with respect to each score of row \<open>r\<close> is zero.
\<close>

theorem degenerate_rows_are_harmless:
  assumes "canonical Y" and "batch_feed Y indices = Inr fd"
    and "score_matrix (snd (shape Y)) T" and "length T = length indices"
    and "r < length indices"
    and "positive_count Y (indices ! r) = 0 \<or> positive_count Y (indices ! r) = snd (shape Y)"
  shows "(\<forall>p\<in>set (feed_posIx fd). 0 < feed_Mplus fd ! fst p) \<and> 0 < real (length T) \<and>
         (\<exists>l. 0 \<le> l \<and>
            cost_of_scores (snd (shape Y)) T (feed_posIx fd) (feed_Mplus fd) (feed_nPos fd) =
              Inr (Fin l)) \<and>
         (\<forall>p\<in>set (feed_posIx fd). fst p = r \<longrightarrow>
            hinge_term (snd (shape Y)) T (feed_posIx fd) (feed_Mplus fd) p = Fin 0) \<and>
         (\<forall>row. length row = snd (shape Y) \<longrightarrow>
            cost_of_scores (snd (shape Y)) (T[r := row]) (feed_posIx fd) (feed_Mplus fd)
              (feed_nPos fd) =
            cost_of_scores (snd (shape Y)) T (feed_posIx fd) (feed_Mplus fd) (feed_nPos fd)) \<and>
         (\<forall>m x. ((\<lambda>s. loss_value
                      (cost_of_scores (snd (shape Y)) (T[r := (T ! r)[m := s]]) (feed_posIx fd)
                         (feed_Mplus fd) (feed_nPos fd)))
                   has_real_derivative 0) (at x))"
proof -
  let ?M = "snd (shape Y)"
  let ?ix = "positive_pairs Y indices"
  let ?Mp = "map (\<lambda>r. real (positive_count Y (indices ! r))) [0..<length indices]"
  have fd: "feed_posIx fd = ?ix" "feed_Mplus fd = ?Mp" "feed_nPos fd = length ?ix"
    using assms(1,2) by (rule batch_feed_fields)+
  have rng: "in_range (length T) ?M ?ix"
    using positive_pairs_in_range [of indices Y] by (simp add: assms(4))
  have lenM: "length ?Mp = length T" by (simp add: assms(4))
  have Tpos: "0 < length T" using assms(4,5) by (cases indices) simp_all
  have Mpos: "0 < ?Mp ! fst p" if "p \<in> set ?ix" for p
    using positive_pairs_count_pos [OF that] that by (simp add: positive_pairs_mem)
  have cost: "cost_of_scores ?M T' ?ix ?Mp (length ?ix) = Inr (top_push_loss ?M T' ?ix ?Mp)"
    if "score_matrix ?M T'" "length T' = length T" for T'
    using cost_of_scores_eq [of ?M T' ?ix ?Mp] that rng lenM by simp
  have nonneg: "\<exists>l. 0 \<le> l \<and> top_push_loss ?M T ?ix ?Mp = Fin l"
    using top_push_loss_nonneg [of ?ix ?Mp T ?M] Mpos Tpos by blast
  have zero: "hinge_term ?M T' ?ix ?Mp p = Fin 0" if "p \<in> set ?ix" "fst p = r" for p T'
  proof -
    have "positive_count Y (indices ! r) \<noteq> 0"
      using no_positives_no_pairs [of Y indices r p] that by blast
    then have "positive_count Y (indices ! r) = ?M" using assms(6) by simp
    then have "\<forall>m\<in>set [0..<?M]. (fst p, m) \<in> set ?ix"
      using all_positive_all_pairs [of Y indices r] assms(5) that(2) by simp
    then show ?thesis using Mpos [OF that(1)] by (rule hinge_term_no_negatives)
  qed
  have same: "top_push_loss ?M (T[r := row]) ?ix ?Mp = top_push_loss ?M T ?ix ?Mp" for row
  proof -
    have e: "map (hinge_term ?M (T[r := row]) ?ix ?Mp) ?ix = map (hinge_term ?M T ?ix ?Mp) ?ix"
    proof (rule map_cong [OF refl])
      fix p assume p: "p \<in> set ?ix"
      show "hinge_term ?M (T[r := row]) ?ix ?Mp p = hinge_term ?M T ?ix ?Mp p"
      proof (cases "fst p = r")
        case True
        then show ?thesis using zero [OF p True] by simp
      next
        case False
        then show ?thesis by (rule hinge_term_other_row)
      qed
    qed
    show ?thesis unfolding top_push_loss_def e by simp
  qed
  have inv: "cost_of_scores ?M (T[r := row]) ?ix ?Mp (length ?ix) =
             cost_of_scores ?M T ?ix ?Mp (length ?ix)" if "length row = ?M" for row
    using cost [OF score_matrix_update [OF assms(3) that]] cost [OF assms(3)] same
    by simp
  have lenr: "length (T ! r) = ?M"
    using assms(3,4,5) by (simp add: score_matrix_def list_all_length)
  have deriv: "((\<lambda>s. loss_value (cost_of_scores ?M (T[r := (T ! r)[m := s]]) ?ix ?Mp
                   (length ?ix))) has_real_derivative 0) (at x)" for m x
    by (rule constant_loss_derivative [where c = "cost_of_scores ?M T ?ix ?Mp (length ?ix)"])
       (simp add: inv lenr)
  show ?thesis
    unfolding fd using Mpos Tpos nonneg cost [OF assms(3)] zero inv deriv by auto
qed

theorem degenerate_rows_are_harmless_witness:
  "canonical \<lparr>shape = (3, 4),
              stored = [[(0, True), (2, True)], [],
                        [(0, True), (1, True), (2, True), (3, True)]]\<rparr> \<and>
   batch_feed \<lparr>shape = (3, 4),
               stored = [[(0, True), (2, True)], [],
                         [(0, True), (1, True), (2, True), (3, True)]]\<rparr> [2, 1, 0] =
     Inr \<lparr>feed_pIx = [2, 1, 0], feed_Mplus = [4, 0, 2], feed_nPos = 6,
          feed_posIx = [(0, 0), (0, 1), (0, 2), (0, 3), (2, 0), (2, 2)]\<rparr> \<and>
   cost_of_scores 4 [[1, 2, 3, 4], [0, 5, 1, 2], [2, 0, 1, 3]]
     [(0, 0), (0, 1), (0, 2), (0, 3), (2, 0), (2, 2)] [4, 0, 2] 6 = Inr (Fin (13 / 12)) \<and>
   cost_of_scores 4 [[9, 9, 9, 9], [0, 5, 1, 2], [2, 0, 1, 3]]
     [(0, 0), (0, 1), (0, 2), (0, 3), (2, 0), (2, 2)] [4, 0, 2] 6 = Inr (Fin (13 / 12))"
proof -
  let ?Y = "\<lparr>shape = (3, 4),
             stored = [[(0, True), (2, True)], [],
                       [(0, True), (1, True), (2, True), (3, True)]]\<rparr>"
  let ?fd = "\<lparr>feed_pIx = [2, 1, 0], feed_Mplus = [4, 0, 2], feed_nPos = 6,
              feed_posIx = [(0, 0), (0, 1), (0, 2), (0, 3), (2, 0), (2, 2)]\<rparr>"
  let ?T = "[[1, 2, 3, 4], [0, 5, 1, 2], [2, 0, 1, 3::real]]"
  have c: "canonical ?Y" by (simp add: canonical_def canonical_row_def)
  have f: "batch_feed ?Y [2, 1, 0] = Inr ?fd" by code_simp
  have s: "score_matrix (snd (shape ?Y)) ?T" by (simp add: score_matrix_def)
  have l: "length ?T = length [2, 1, 0::nat]" "0 < length [2, 1, 0::nat]" by simp_all
  have d: "positive_count ?Y ([2, 1, 0] ! 0) = 0 \<or>
           positive_count ?Y ([2, 1, 0] ! 0) = snd (shape ?Y)"
    by code_simp
  have v: "cost_of_scores 4 ?T [(0, 0), (0, 1), (0, 2), (0, 3), (2, 0), (2, 2)] [4, 0, 2] 6 =
           Inr (Fin (13 / 12))"
    by code_simp
  have "length [9, 9, 9, 9::real] = snd (shape ?Y) \<longrightarrow>
        cost_of_scores (snd (shape ?Y)) (?T[0 := [9, 9, 9, 9]]) (feed_posIx ?fd)
          (feed_Mplus ?fd) (feed_nPos ?fd) =
        cost_of_scores (snd (shape ?Y)) ?T (feed_posIx ?fd) (feed_Mplus ?fd) (feed_nPos ?fd)"
    using degenerate_rows_are_harmless [OF c f s l d] by blast
  then have "cost_of_scores 4 [[9, 9, 9, 9], [0, 5, 1, 2], [2, 0, 1, 3]]
     [(0, 0), (0, 1), (0, 2), (0, 3), (2, 0), (2, 2)] [4, 0, 2] 6 = Inr (Fin (13 / 12))"
    using v by simp
  then show ?thesis using c f v by blast
qed

section \<open>Properties of the training run\<close>

subsection \<open>Initial parameters\<close>

lemma scale_unit_interval:
  assumes "unit_interval A" "0 < c"
  shows "entries_between 0 c (scale c A)"
proof -
  have "0 \<le> c * u \<and> c * u < c" if "0 \<le> u \<and> u < 1" for u :: real
    using that assms(2) by (simp add: mult_less_cancel_left2)
  then show ?thesis
    using assms(1) by (auto simp: unit_interval_def entries_between_def scale_def list_all_iff)
qed

lemma entries_between_concat:
  assumes "entries_between lo hi A"
  shows "list_all (\<lambda>x. lo \<le> x \<and> x < hi) (concat A)"
  using assms by (auto simp: entries_between_def list_all_iff)

text \<open>
  Claim C9. If the uniform draws of the library are at least \<open>0\<close> and below \<open>1\<close>, every
  entry of the initial \<open>S\<close>, \<open>b\<close> and \<open>P\<close> is at least \<open>0\<close> and below \<open>1e-3\<close>; no initial
  value is negative.
\<close>

theorem initial_parameters_range:
  assumes "\<forall>k shp. unit_interval (random_uniform lib (RAND_SEED cfg) k shp)"
  shows "entries_between 0 (1 / 1000) (S_var (init_variables lib cfg shp)) \<and>
         list_all (\<lambda>x. 0 \<le> x \<and> x < 1 / 1000) (b_var (init_variables lib cfg shp)) \<and>
         entries_between 0 (1 / 1000) (P_var (init_variables lib cfg shp))"
proof -
  have e: "entries_between 0 (1 / 1000)
             (scale (1 / 1000) (random_uniform lib (RAND_SEED cfg) k s))" for k s
    by (rule scale_unit_interval [OF assms [rule_format]]) simp
  have "S_var (init_variables lib cfg shp) =
          scale (1 / 1000) (random_uniform lib (RAND_SEED cfg) 0 (feature_dim cfg, snd shp))"
    and "b_var (init_variables lib cfg shp) =
          concat (scale (1 / 1000) (random_uniform lib (RAND_SEED cfg) 1 (1, snd shp)))"
    and "P_var (init_variables lib cfg shp) =
          scale (1 / 1000) (random_uniform lib (RAND_SEED cfg) 2 (fst shp, feature_dim cfg))"
    by (simp_all add: init_variables_def Let_def)
  then show ?thesis
    using e entries_between_concat [OF e] by (simp only:)
qed

theorem initial_parameters_range_witness:
  "unit_interval (random_uniform example_library (RAND_SEED example_config) 0 (2, 4)) \<and>
   S_var (init_variables example_library example_config (3, 4)) =
     [[1 / 2000, 1 / 2000, 1 / 2000, 1 / 2000], [1 / 2000, 1 / 2000, 1 / 2000, 1 / 2000]] \<and>
   entries_between 0 (1 / 1000) (S_var (init_variables example_library example_config (3, 4)))"
proof -
  have u: "\<forall>k shp. unit_interval
             (random_uniform example_library (RAND_SEED example_config) k shp)"
    by (simp add: example_library_def unit_interval_def list_all_iff)
  have v: "S_var (init_variables example_library example_config (3, 4)) =
     [[1 / 2000, 1 / 2000, 1 / 2000, 1 / 2000], [1 / 2000, 1 / 2000, 1 / 2000, 1 / 2000]]"
    by code_simp
  show ?thesis
    using initial_parameters_range [OF u, of "(3, 4)"] u v by blast
qed

subsection \<open>The membership matrix is only read\<close>

lemma for_loop_preserves:
  assumes "\<And>s x s'. body s x = Inr s' \<Longrightarrow> f s' = f s"
    and "for_loop body xs st = Inr st'"
  shows "f st' = f st"
  using assms(2)
proof (induction xs arbitrary: st)
  case Nil
  then show ?case by simp
next
  case (Cons x xs)
  then obtain s where s: "body st x = Inr s" "for_loop body xs s = Inr st'"
    by (auto simp: err_bind_def split: sum.splits)
  then show ?case using Cons.IH [of s] assms(1) [of st x s] by simp
qed

lemma train_batch_Y:
  assumes "train_batch lib cfg nbs rand_ix epoch st nb = Inr st'"
  shows "Y_data st' = Y_data st"
  using assms
  by (auto simp: train_batch_def Let_def err_bind_def split: sum.splits prod.splits)

lemma train_epoch_Y:
  assumes "train_epoch lib cfg nbs st epoch = Inr st'"
  shows "Y_data st' = Y_data st"
proof -
  obtain rand_ix g where p: "permutation lib (np_random st) (fst (shape (Y_data st))) = (rand_ix, g)"
    by (cases "permutation lib (np_random st) (fst (shape (Y_data st)))")
  have "for_loop (train_batch lib cfg nbs rand_ix epoch) (py_range nbs) (st\<lparr>np_random := g\<rparr>) =
        Inr st'"
    using assms p by (simp add: train_epoch_def)
  then have "Y_data st' = Y_data (st\<lparr>np_random := g\<rparr>)"
    by (rule for_loop_preserves [rotated]) (rule train_batch_Y)
  then show ?thesis by simp
qed

text \<open>
  Claim C8. A training step that returns leaves \<open>Y\<close> as it was, and a training run that
  completes ends with the matrix it was started on: statistics extraction, cost and
  optimiser step only read \<open>Y\<close>.
\<close>

theorem membership_matrix_unchanged:
  "(train_batch lib cfg nbs rand_ix epoch st nb = Inr st' \<longrightarrow> Y_data st' = Y_data st) \<and>
   (train lib cfg Y g = Inr fin \<longrightarrow> Y_data fin = Y)"
proof -
  have "Y_data fin = Y" if "train lib cfg Y g = Inr fin"
  proof -
    show ?thesis
    proof (cases "n_batches (fst (shape Y)) (batch_size cfg)")
      case (Inl e)
      then show ?thesis using that by (simp add: train_def err_bind_def)
    next
      case (Inr nbs)
      then have "for_loop (train_epoch lib cfg nbs) (py_range (int (n_epochs cfg)))
          (initial_training lib cfg Y g) = Inr fin"
        using that by (simp add: train_def err_bind_def)
      then have "Y_data fin = Y_data (initial_training lib cfg Y g)"
        by (rule for_loop_preserves [rotated]) (rule train_epoch_Y)
      then show ?thesis by (simp add: initial_training_def)
    qed
  qed
  then show ?thesis using train_batch_Y by blast
qed


theorem membership_matrix_unchanged_witness:
  "train example_library example_config example_Y 0 =
     Inr \<lparr>Y_data = example_Y,
          vars = \<lparr>S_var = [[1 / 2000, 1 / 2000, 1 / 2000, 1 / 2000],
                           [1 / 2000, 1 / 2000, 1 / 2000, 1 / 2000]],
                  b_var = [1 / 2000, 1 / 2000, 1 / 2000, 1 / 2000],
                  P_var = [[1 / 2000, 1 / 2000], [1 / 2000, 1 / 2000], [1 / 2000, 1 / 2000]],
                  slots = ()\<rparr>,
          np_random = 1,
          fed = [\<lparr>feed_pIx = [0, 1], feed_Mplus = [2, 0], feed_nPos = 2,
                  feed_posIx = [(0, 0), (0, 2)]\<rparr>,
                 \<lparr>feed_pIx = [2, 0], feed_Mplus = [4, 2], feed_nPos = 6,
                  feed_posIx = [(0, 0), (0, 1), (0, 2), (0, 3), (1, 0), (1, 2)]\<rparr>],
          printed = [(1, 1, 2, Fin (1 / 4)), (1, 2, 2, Fin (1 / 4))]\<rparr>"
proof -
  obtain fin where fin: "train example_library example_config example_Y 0 = Inr fin"
    and rest: "vars fin = \<lparr>S_var = [[1 / 2000, 1 / 2000, 1 / 2000, 1 / 2000],
                           [1 / 2000, 1 / 2000, 1 / 2000, 1 / 2000]],
                  b_var = [1 / 2000, 1 / 2000, 1 / 2000, 1 / 2000],
                  P_var = [[1 / 2000, 1 / 2000], [1 / 2000, 1 / 2000], [1 / 2000, 1 / 2000]],
                  slots = ()\<rparr>"
      "np_random fin = 1"
      "fed fin = [\<lparr>feed_pIx = [0, 1], feed_Mplus = [2, 0], feed_nPos = 2,
                  feed_posIx = [(0, 0), (0, 2)]\<rparr>,
                 \<lparr>feed_pIx = [2, 0], feed_Mplus = [4, 2], feed_nPos = 6,
                  feed_posIx = [(0, 0), (0, 1), (0, 2), (0, 3), (1, 0), (1, 2)]\<rparr>]"
      "printed fin = [(1, 1, 2, Fin (1 / 4)), (1, 2, 2, Fin (1 / 4))]"
  proof -
    have "train example_library example_config example_Y 0 =
     Inr \<lparr>Y_data = \<lparr>shape = (3, 4),
      stored = [[(0, True), (2, True)], [], [(0, True), (1, True), (2, True), (3, True)]]\<rparr>,
          vars = \<lparr>S_var = [[1 / 2000, 1 / 2000, 1 / 2000, 1 / 2000],
                           [1 / 2000, 1 / 2000, 1 / 2000, 1 / 2000]],
                  b_var = [1 / 2000, 1 / 2000, 1 / 2000, 1 / 2000],
                  P_var = [[1 / 2000, 1 / 2000], [1 / 2000, 1 / 2000], [1 / 2000, 1 / 2000]],
                  slots = ()\<rparr>,
          np_random = 1,
          fed = [\<lparr>feed_pIx = [0, 1], feed_Mplus = [2, 0], feed_nPos = 2,
                  feed_posIx = [(0, 0), (0, 2)]\<rparr>,
                 \<lparr>feed_pIx = [2, 0], feed_Mplus = [4, 2], feed_nPos = 6,
                  feed_posIx = [(0, 0), (0, 1), (0, 2), (0, 3), (1, 0), (1, 2)]\<rparr>],
          printed = [(1, 1, 2, Fin (1 / 4)), (1, 2, 2, Fin (1 / 4))]\<rparr>"
      by code_simp
    then show ?thesis using that by simp
  qed
  have "Y_data fin = example_Y"
    using membership_matrix_unchanged [where lib = example_library and cfg = example_config
        and Y = example_Y and g = 0 and fin = fin] fin by blast
  then show ?thesis using fin rest by (cases fin) simp
qed

subsection \<open>Seeds and batch orderings\<close>

lemma batch_feed_pIx:
  assumes "batch_feed Y indices = Inr fd"
  shows "feed_pIx fd = indices"
  using assms by (auto simp: batch_feed_def Let_def split: sum.splits)

lemma scores_shape:
  assumes "scores M v pIx = Inr T" and "length (b_var v) = M"
  shows "score_matrix M T \<and> length T = length pIx"
proof -
  obtain Pb where Pb: "gather (P_var v) pIx = Inr Pb"
    and T: "T = map (\<lambda>row. map2 (+) row (b_var v)) (matmul M Pb (S_var v))"
    using assms(1) by (auto simp: scores_def err_bind_def split: sum.splits)
  have "length Pb = length pIx"
    using Pb by (auto simp: gather_def split: if_splits)
  then show ?thesis
    using assms(2) by (simp add: T score_matrix_def list_all_iff matmul_def)
qed

text \<open>
  The cost of a training step is a non-negative real number whenever the batch is not
  empty, its indices are rows of \<open>P\<close> and \<open>b\<close> has one bias per song.
\<close>

lemma training_cost_real:
  assumes "canonical Y" and "batch_feed Y indices = Inr fd" and "indices \<noteq> []"
    and "list_all (\<lambda>i. i < length (P_var v)) indices"
    and "length (b_var v) = snd (shape Y)"
  shows "\<exists>l. 0 \<le> l \<and> cost (snd (shape Y)) v fd = Inr (Fin l)"
proof -
  have pIx: "feed_pIx fd = indices" using assms(2) by (rule batch_feed_pIx)
  obtain T where T: "scores (snd (shape Y)) v indices = Inr T"
    using assms(4) by (simp add: scores_def gather_def err_bind_def)
  from scores_shape [OF T assms(5)] batch_cost_real [OF assms(1,2) _ _ assms(3), of T]
  show ?thesis by (simp add: cost_def pIx T err_bind_def)
qed

lemma train_batch_fed:
  assumes "train_batch lib cfg nbs rand_ix epoch st nb = Inr st'"
  shows "map feed_pIx (fed st') =
           map feed_pIx (fed st) @
           [batch_indices rand_ix (fst (shape (Y_data st))) (batch_size cfg) nb] \<and>
         np_random st' = np_random st \<and> Y_data st' = Y_data st"
  using assms
  by (auto simp: train_batch_def Let_def err_bind_def batch_feed_pIx
        split: sum.splits prod.splits)

lemma batches_loop_fed:
  assumes "for_loop (train_batch lib cfg nbs rand_ix epoch) xs st = Inr st'"
  shows "map feed_pIx (fed st') =
           map feed_pIx (fed st) @
           map (batch_indices rand_ix (fst (shape (Y_data st))) (batch_size cfg)) xs \<and>
         np_random st' = np_random st \<and> Y_data st' = Y_data st"
  using assms
proof (induction xs arbitrary: st)
  case Nil
  then show ?case by simp
next
  case (Cons x xs)
  then obtain s where s: "train_batch lib cfg nbs rand_ix epoch st x = Inr s"
      "for_loop (train_batch lib cfg nbs rand_ix epoch) xs s = Inr st'"
    by (auto simp: err_bind_def split: sum.splits)
  show ?case using Cons.IH [OF s(2)] train_batch_fed [OF s(1)] by simp
qed

lemma train_epoch_fed:
  assumes "train_epoch lib cfg nbs st epoch = Inr st'"
  shows "map feed_pIx (fed st') =
           map feed_pIx (fed st) @
           map (batch_indices
                  (fst (permutation lib (np_random st) (fst (shape (Y_data st)))))
                  (fst (shape (Y_data st))) (batch_size cfg)) (py_range nbs) \<and>
         np_random st' = snd (permutation lib (np_random st) (fst (shape (Y_data st)))) \<and>
         Y_data st' = Y_data st"
  using assms batches_loop_fed [of lib cfg nbs _ epoch "py_range nbs" "st\<lparr>np_random := _\<rparr>" st']
  by (auto simp: train_epoch_def split: prod.splits)

lemma epochs_loop_fed:
  assumes "for_loop (train_epoch lib cfg nbs) es st = Inr st'"
  shows "map feed_pIx (fed st') =
           map feed_pIx (fed st) @
           drawn_batches (permutation lib) (fst (shape (Y_data st))) (batch_size cfg) nbs
             (length es) (np_random st)"
  using assms
proof (induction es arbitrary: st)
  case Nil
  then show ?case by simp
next
  case (Cons e es)
  then obtain s where s: "train_epoch lib cfg nbs st e = Inr s"
      "for_loop (train_epoch lib cfg nbs) es s = Inr st'"
    by (auto simp: err_bind_def split: sum.splits)
  show ?case using Cons.IH [OF s(2)] train_epoch_fed [OF s(1)] by simp
qed

lemma batch_orderings_drawn:
  assumes "batch_orderings lib cfg Y g = Inr bs"
  shows "\<exists>nbs. n_batches (fst (shape Y)) (batch_size cfg) = Inr nbs \<and>
           bs = drawn_batches (permutation lib) (fst (shape Y)) (batch_size cfg) nbs
                  (n_epochs cfg) g"
proof -
  obtain st where st: "train lib cfg Y g = Inr st" "bs = map feed_pIx (fed st)"
    using assms by (auto simp: batch_orderings_def err_bind_def split: sum.splits)
  show ?thesis
  proof (cases "n_batches (fst (shape Y)) (batch_size cfg)")
    case (Inl e)
    then show ?thesis using st(1) by (simp add: train_def err_bind_def)
  next
    case (Inr nbs)
    then have "for_loop (train_epoch lib cfg nbs) (py_range (int (n_epochs cfg)))
        (initial_training lib cfg Y g) = Inr st"
      using st(1) by (simp add: train_def err_bind_def)
    from epochs_loop_fed [OF this] show ?thesis
      using Inr st(2) by (simp add: initial_training_def py_range_def)
  qed
qed

text \<open>
  What the seed fixes and what it does not. The initial variables of a run do not depend
  on the state of numpy's generator: runs with the same configuration, seed and matrix
  start from identical \<open>S\<close>, \<open>b\<close>, \<open>P\<close>. The batch orderings do not depend on the seed:
  two completed runs whose numpy generators start in the same state, on matrices with
  the same number of playlists and with the same batch size and number of epochs, feed
  the same index sequences, whatever their seeds and TensorFlow draws are.
\<close>

lemma seed_and_generator:
  "vars (initial_training lib cfg Y g) = vars (initial_training lib cfg Y g') \<and>
   (batch_orderings lib cfg Y g = Inr bs \<and> batch_orderings lib' cfg' Y' g = Inr bs' \<and>
    permutation lib' = permutation lib \<and> fst (shape Y') = fst (shape Y) \<and>
    batch_size cfg' = batch_size cfg \<and> n_epochs cfg' = n_epochs cfg \<longrightarrow> bs' = bs)"
proof -
  have "bs' = bs"
    if "batch_orderings lib cfg Y g = Inr bs" "batch_orderings lib' cfg' Y' g = Inr bs'"
      "permutation lib' = permutation lib" "fst (shape Y') = fst (shape Y)"
      "batch_size cfg' = batch_size cfg" "n_epochs cfg' = n_epochs cfg"
    using batch_orderings_drawn [OF that(1)] batch_orderings_drawn [OF that(2)] that(3-6)
    by auto
  then show ?thesis by (auto simp: initial_training_def)
qed


text \<open>
  Claim C4, on the small instance. Two runs with the same configuration, the same seed
  and the same matrix, whose numpy generators start in different states, both complete
  and feed different playlist index sequences: the notebook passes \<open>RAND_SEED\<close> to
  \<open>tf.set_random_seed\<close> and never to \<open>np.random.seed\<close>.
\<close>

theorem orderings_differ_between_runs:
  "batch_orderings example_library example_config example_Y 0 = Inr [[0, 1], [2, 0]] \<and>
   batch_orderings example_library example_config example_Y 1 = Inr [[2, 1], [0, 2]] \<and>
   batch_orderings example_library example_config example_Y 0 \<noteq>
     batch_orderings example_library example_config example_Y 1"
proof -
  have a: "batch_orderings example_library example_config example_Y 0 = Inr [[0, 1], [2, 0]]"
    by code_simp
  have b: "batch_orderings example_library example_config example_Y 1 = Inr [[2, 1], [0, 2]]"
    by code_simp
  show ?thesis unfolding a b by simp
qed

subsection \<open>The saved array\<close>

lemma np_r_three:
  "np_r [((D, M), A), ((1, M), [row]), ((N, D'), C)] =
     (if M = D' then Inr ((D + 1 + N, M), A @ [row] @ C) else Inl ValueError)"
  by (simp add: err_bind_def)

lemma save_parameters_eq:
  "save_parameters cfg (N, M) v =
     (if M = feature_dim cfg
      then Inr ((feature_dim cfg + 1 + N, M), S_var v @ [b_var v] @ P_var v)
      else Inl ValueError)"
  unfolding save_parameters_def eval_variables_def Let_def fst_conv snd_conv
  by (rule np_r_three)

text \<open>
  Unless \<open>Y\<close> has as many songs as the embedding has dimensions, the training cell ends
  in an exception and writes nothing.
\<close>

lemma notebook_saves_nothing:
  assumes "snd (shape Y) \<noteq> feature_dim cfg"
  shows "\<exists>e. notebook lib cfg Y g = Inl e"
proof (cases "train lib cfg Y g")
  case (Inl e)
  then show ?thesis by (simp add: notebook_def err_bind_def)
next
  case (Inr st)
  then have "notebook lib cfg Y g = save_parameters cfg (fst (shape Y), snd (shape Y)) (vars st)"
    by (simp add: notebook_def err_bind_def)
  then show ?thesis using assms by (simp only: save_parameters_eq) simp
qed

text \<open>
  Claim C5, at the shapes of the specification's example (\<open>D = 8\<close>, \<open>M = 10\<close>, \<open>N = 5\<close>):
  \<open>S\<close> and \<open>b\<close> have ten columns and \<open>P\<close> has eight, so \<open>np.r_\<close> raises and no array of
  \<open>D + 1 + N\<close> rows is saved. By \<open>save_parameters_eq\<close> the stack \<open>[S; b; P]\<close> is saved
  exactly when \<open>M = D\<close>.
\<close>

theorem stacking_raises_for_spec_shapes:
  "save_parameters spec_config (5, 10) v = Inl ValueError"
  by (simp add: save_parameters_eq spec_config_def)

end
